theory Spec2Isabelle
  imports Main "HOL-Library.Char_ord" "HOL-Library.List_Lexorder"
begin

section \<open>Python values used by cleanupdockerhub.py\<close>

text \<open>
  Exceptions the script can raise. \<open>ConnectionError\<close> stands for every failure of the
  \<open>requests\<close> transport (connection refused, timeout); \<open>HTTPError\<close> carries the status
  that \<open>raise_for_status\<close> rejected.
\<close>

datatype error =
    ConnectionError
  | HTTPError nat
  | JSONDecodeError
  | KeyError string
  | TypeError
  | ValueError

text \<open>
  A key of a JSON object is absent, present with \<open>null\<close>, or present with a value.
  \<open>dict_get f d\<close> is Python's \<open>dict.get(key, d)\<close>: the default only replaces an absent
  key, a \<open>null\<close> comes back as Python's \<open>None\<close> (here \<open>None\<close>).
\<close>

datatype 'a field = Absent | Null | Val 'a

fun dict_get :: "'a field \<Rightarrow> 'a \<Rightarrow> 'a option" where
  "dict_get Absent d = Some d"
| "dict_get Null d = None"
| "dict_get (Val v) d = Some v"

text \<open>
  A value that is \<open>None\<close> or a \<open>str\<close>; \<open>fstr\<close> is how an f-string renders it, and
  \<open>truthy\<close> is its truth value in \<open>while url:\<close> and \<open>if not s:\<close>.
\<close>

type_synonym pystr = "string option"

fun fstr :: "pystr \<Rightarrow> string" where
  "fstr None = ''None''"
| "fstr (Some s) = s"

fun truthy :: "pystr \<Rightarrow> bool" where
  "truthy None = False"
| "truthy (Some s) = (s \<noteq> [])"

text \<open>\<open>str(n)\<close> for a Python int.\<close>

definition digit :: "nat \<Rightarrow> char" where
  "digit n = ''0123456789'' ! n"

fun str_nat :: "nat \<Rightarrow> string" where
  "str_nat n = (if n < 10 then [digit n] else str_nat (n div 10) @ [digit (n mod 10)])"

definition str_int :: "int \<Rightarrow> string" where
  "str_int i = (if i < 0 then CHR ''-'' # str_nat (nat (- i)) else str_nat (nat i))"

text \<open>
  \<open>s.lower()\<close> on the ASCII letters; every other character is left as it is, which is
  what Python does to every character that could end up in \<open>true\<close>, \<open>1\<close> or \<open>yes\<close>.
\<close>

definition lower_char :: "char \<Rightarrow> char" where
  "lower_char c =
     (case map_of (zip ''ABCDEFGHIJKLMNOPQRSTUVWXYZ'' ''abcdefghijklmnopqrstuvwxyz'') c of
        None \<Rightarrow> c
      | Some l \<Rightarrow> l)"

definition lower :: "string \<Rightarrow> string" where
  "lower s = map lower_char s"

text \<open>\<open>s.replace("Z", "+00:00")\<close>: every occurrence is replaced.\<close>

fun replace_Z :: "string \<Rightarrow> string" where
  "replace_Z [] = []"
| "replace_Z (c # cs) =
     (if c = CHR ''Z'' then ''+00:00'' @ replace_Z cs else c # replace_Z cs)"

section \<open>Configuration\<close>

text \<open>The module-level constants, read once from the environment when the module loads.\<close>

record config =
  DOCKERHUB_USERNAME :: string
  DOCKERHUB_TOKEN :: string
  DOCKERHUB_NAMESPACE :: string
  KEEP_LAST_N :: int
  MIN_AGE_DAYS :: int
  DRY_RUN :: bool
  REPOS_TO_CLEAN :: "string list"
  EXCLUDE_TAGS :: "string list"
  CRON_SCHEDULE :: string

definition getenv :: "(string \<rightharpoonup> string) \<Rightarrow> string \<Rightarrow> string \<Rightarrow> string" where
  "getenv env key dflt = (case env key of None \<Rightarrow> dflt | Some v \<Rightarrow> v)"

text \<open>
  Line 32: \<open>DRY_RUN = os.getenv("DRY_RUN", "true").lower() in ("true", "1", "yes")\<close>.
\<close>

definition DRY_RUN_from_env :: "(string \<rightharpoonup> string) \<Rightarrow> bool" where
  "DRY_RUN_from_env env =
     (lower (getenv env ''DRY_RUN'' ''true'') \<in> set [''true'', ''1'', ''yes''])"

definition DOCKERHUB_API :: string where
  "DOCKERHUB_API = ''https://hub.docker.com/v2''"

section \<open>Retention decision\<close>

text \<open>
  A raw dict of a registry listing; the script reads the keys \<open>name\<close> and \<open>last_updated\<close>
  of a tag, and \<open>name\<close> of a repository.
\<close>

record tag =
  name :: "string field"
  last_updated :: "string field"

text \<open>
  A \<open>datetime\<close> is offset-naive or offset-aware; an aware one is the instant it denotes,
  in microseconds since the epoch. \<open>datetime.fromisoformat\<close> belongs to the Python
  library and is a parameter of the model: \<open>None\<close> is its \<open>ValueError\<close>.
\<close>

datatype datetime = Naive int | Aware int

type_synonym isoparser = "string \<Rightarrow> datetime option"

definition us_per_day :: int where
  "us_per_day = 86400 * 1000000"

text \<open>
  \<open>(now - last_updated).days\<close> with \<open>now\<close> aware: the difference is normalised so that
  seconds and microseconds are non-negative, hence \<open>days\<close> is the floor of the quotient.
  Subtracting a naive datetime from an aware one raises \<open>TypeError\<close>.
\<close>

definition days_between :: "int \<Rightarrow> int \<Rightarrow> int" where
  "days_between now t = (now - t) div us_per_day"

fun age_days_of :: "int \<Rightarrow> datetime \<Rightarrow> error + int" where
  "age_days_of now (Naive t) = Inl TypeError"
| "age_days_of now (Aware t) = Inr (days_between now t)"

definition py_in :: "pystr \<Rightarrow> string list \<Rightarrow> bool" where
  "py_in x xs = (case x of None \<Rightarrow> False | Some s \<Rightarrow> s \<in> set xs)"

text \<open>
  The reasons of \<open>evaluate_tag\<close>, as the f-strings build them. The dash of the source is
  held as its three UTF-8 bytes.
\<close>

definition em_dash :: string where
  "em_dash = [CHR 0xE2, CHR 0x80, CHR 0x94]"

definition quote :: string where
  "quote = [CHR 0x27]"

definition reason_excluded :: "string \<Rightarrow> string" where
  "reason_excluded n = ''excluded tag '' @ quote @ n @ quote"

definition reason_no_timestamp :: string where
  "reason_no_timestamp = ''no last_updated timestamp '' @ em_dash @ '' skipping to be safe''"

definition reason_delete :: "config \<Rightarrow> int \<Rightarrow> int \<Rightarrow> string" where
  "reason_delete cfg rank age =
     ''rank '' @ str_int (rank + 1) @ '' (beyond keep='' @ str_int (KEEP_LAST_N cfg)
       @ ''), age '' @ str_int age @ ''d (>= '' @ str_int (MIN_AGE_DAYS cfg) @ ''d)''"

definition reason_within :: "config \<Rightarrow> int \<Rightarrow> string" where
  "reason_within cfg rank =
     ''rank '' @ str_int (rank + 1) @ '' '' @ em_dash @ '' within keep-last-''
       @ str_int (KEEP_LAST_N cfg) @ '' window''"

definition reason_young :: "config \<Rightarrow> int \<Rightarrow> int \<Rightarrow> string" where
  "reason_young cfg rank age =
     ''rank '' @ str_int (rank + 1) @ '' beyond window but only '' @ str_int age
       @ ''d old (min '' @ str_int (MIN_AGE_DAYS cfg) @ ''d)''"

text \<open>
  \<open>evaluate_tag(tag, rank)\<close>; \<open>now\<close> is what \<open>datetime.now(timezone.utc)\<close> returns during
  the call.
\<close>

definition evaluate_tag ::
  "config \<Rightarrow> isoparser \<Rightarrow> int \<Rightarrow> tag \<Rightarrow> int \<Rightarrow> error + (bool \<times> string)" where
  "evaluate_tag cfg fromisoformat now t rank =
     (let nm = dict_get (name t) '''' in
      if py_in nm (EXCLUDE_TAGS cfg)
      then Inr (False, reason_excluded (fstr nm))
      else
        (case dict_get (last_updated t) '''' of
           None \<Rightarrow> Inr (False, reason_no_timestamp)
         | Some last_updated_str \<Rightarrow>
             if last_updated_str = [] then Inr (False, reason_no_timestamp)
             else
               (case fromisoformat (replace_Z last_updated_str) of
                  None \<Rightarrow> Inl ValueError
                | Some lu \<Rightarrow>
                    (case age_days_of now lu of
                       Inl e \<Rightarrow> Inl e
                     | Inr age_days \<Rightarrow>
                         (let beyond_keep = (rank \<ge> KEEP_LAST_N cfg);
                              old_enough = (age_days \<ge> MIN_AGE_DAYS cfg)
                          in if beyond_keep \<and> old_enough
                             then Inr (True, reason_delete cfg rank age_days)
                             else if \<not> beyond_keep
                             then Inr (False, reason_within cfg rank)
                             else Inr (False, reason_young cfg rank age_days))))))"

section \<open>Docker Hub API helpers\<close>

text \<open>
  What \<open>requests\<close> hands back: the call raises (\<open>Inl\<close>), or there is a response with a
  status code and a body; \<open>json = None\<close> is a body that \<open>resp.json()\<close> cannot decode.
\<close>

record 'a response =
  status_code :: nat
  json :: "'a option"

definition raise_for_status :: "'a response \<Rightarrow> error + unit" where
  "raise_for_status resp =
     (if 400 \<le> status_code resp \<and> status_code resp < 600
      then Inl (HTTPError (status_code resp)) else Inr ())"

definition resp_json :: "'a response \<Rightarrow> error + 'a" where
  "resp_json resp = (case json resp of None \<Rightarrow> Inl JSONDecodeError | Some d \<Rightarrow> Inr d)"

text \<open>One page of a listing: the keys \<open>results\<close> and \<open>next\<close> of the decoded body.\<close>

record page =
  results :: "tag list field"
  "next" :: "string field"

text \<open>
  The registry and the clock as the script meets them during one run:
  \<open>post_login k\<close> answers the \<open>k\<close>-th POST to \<open>/users/login\<close> (counted from 0),
  \<open>http_get url\<close> answers a GET, \<open>http_delete url\<close> answers a DELETE with a status code,
  and \<open>clock repo rank\<close> is the time read while the tag at \<open>rank\<close> of \<open>repo\<close> is evaluated.
  Within one run a request for the same URL gets the same answer; the script asks for each
  URL once unless a listing links back to itself or a repository is named twice.
\<close>

record world =
  post_login :: "nat \<Rightarrow> error + string field response"
  http_get :: "string \<Rightarrow> error + page response"
  http_delete :: "string \<Rightarrow> error + nat"
  clock :: "pystr \<Rightarrow> nat \<Rightarrow> int"

text \<open>
  What a run does on the outside, in order: the HTTP requests with their URL (and bearer
  token), and a pause, which is what \<open>time.sleep\<close> would add.
\<close>

datatype call =
    POST string
  | GET string pystr
  | DELETE string pystr
  | SLEEP

text \<open>
  \<open>get_token()\<close>: one POST, \<open>raise_for_status\<close>, then \<open>resp.json()["token"]\<close>. The
  function has no loop and never sleeps.
\<close>

definition get_token :: "world \<Rightarrow> (error + pystr) \<times> call list" where
  "get_token w =
     (let resp = post_login w 0; calls = [POST (DOCKERHUB_API @ ''/users/login'')] in
      case resp of
        Inl e \<Rightarrow> (Inl e, calls)
      | Inr r \<Rightarrow>
          (case raise_for_status r of
             Inl e \<Rightarrow> (Inl e, calls)
           | Inr _ \<Rightarrow>
               (case resp_json r of
                  Inl e \<Rightarrow> (Inl e, calls)
                | Inr body \<Rightarrow>
                    (case body of
                       Absent \<Rightarrow> (Inl (KeyError ''token''), calls)
                     | Null \<Rightarrow> (Inr None, calls)
                     | Val s \<Rightarrow> (Inr (Some s), calls)))))"

text \<open>
  The body of the \<open>while url:\<close> loop of \<open>paginate\<close>: fetch one page and give back its
  results and the next cursor. \<open>results.extend(None)\<close> raises \<open>TypeError\<close>.
\<close>

definition fetch_page :: "world \<Rightarrow> string \<Rightarrow> error + (tag list \<times> pystr)" where
  "fetch_page w url =
     (case http_get w url of
        Inl e \<Rightarrow> Inl e
      | Inr resp \<Rightarrow>
          (case raise_for_status resp of
             Inl e \<Rightarrow> Inl e
           | Inr _ \<Rightarrow>
               (case resp_json resp of
                  Inl e \<Rightarrow> Inl e
                | Inr data \<Rightarrow>
                    (case dict_get (results data) [] of
                       None \<Rightarrow> Inl TypeError
                     | Some rs \<Rightarrow>
                         Inr (rs, case next data of Val u \<Rightarrow> Some u | _ \<Rightarrow> None)))))"

text \<open>
  The loop itself. It runs as long as the server keeps handing out a non-empty cursor, so
  it need not terminate: \<open>None\<close> is the run that never returns.
\<close>

partial_function (option) paginate_loop ::
  "world \<Rightarrow> pystr \<Rightarrow> pystr \<Rightarrow> tag list \<Rightarrow> call list
     \<Rightarrow> ((error + tag list) \<times> call list) option" where
  "paginate_loop w token url acc calls =
     (if truthy url then
        (case fetch_page w (fstr url) of
           Inl e \<Rightarrow> Some (Inl e, calls @ [GET (fstr url) token])
         | Inr (rs, nxt) \<Rightarrow> paginate_loop w token nxt (acc @ rs) (calls @ [GET (fstr url) token]))
      else Some (Inr acc, calls))"

declare paginate_loop.simps [code]

definition paginate ::
  "world \<Rightarrow> string \<Rightarrow> pystr \<Rightarrow> ((error + tag list) \<times> call list) option" where
  "paginate w url token = paginate_loop w token (Some url) [] []"

text \<open>\<open>get_repositories(token)\<close>: the listing of the namespace, then \<open>r["name"]\<close> of each.\<close>

fun repo_names :: "tag list \<Rightarrow> error + pystr list" where
  "repo_names [] = Inr []"
| "repo_names (r # rs) =
     (case name r of
        Absent \<Rightarrow> Inl (KeyError ''name'')
      | Null \<Rightarrow> (case repo_names rs of Inl e \<Rightarrow> Inl e | Inr ns \<Rightarrow> Inr (None # ns))
      | Val n \<Rightarrow> (case repo_names rs of Inl e \<Rightarrow> Inl e | Inr ns \<Rightarrow> Inr (Some n # ns)))"

definition repositories_url :: "config \<Rightarrow> string" where
  "repositories_url cfg =
     DOCKERHUB_API @ ''/repositories/'' @ DOCKERHUB_NAMESPACE cfg @ ''/?page_size=100''"

definition get_repositories ::
  "world \<Rightarrow> config \<Rightarrow> pystr \<Rightarrow> ((error + pystr list) \<times> call list) option" where
  "get_repositories w cfg token =
     (case paginate w (repositories_url cfg) token of
        None \<Rightarrow> None
      | Some (Inl e, calls) \<Rightarrow> Some (Inl e, calls)
      | Some (Inr repos, calls) \<Rightarrow> Some (repo_names repos, calls))"

text \<open>
  \<open>sorted(tags, key=lambda t: t.get("last_updated", ""), reverse=True)\<close>: a stable sort,
  descending, on strings compared by code point. A key that is \<open>None\<close> cannot be compared
  with anything, so the sort raises \<open>TypeError\<close> as soon as it has two elements to
  compare and one such key among them.
\<close>

definition sort_key_of :: "tag \<Rightarrow> pystr" where
  "sort_key_of t = dict_get (last_updated t) ''''"

definition sorted_newest_first :: "tag list \<Rightarrow> error + tag list" where
  "sorted_newest_first tags =
     (if 2 \<le> length tags \<and> None \<in> set (map sort_key_of tags) then Inl TypeError
      else Inr (rev (sort_key (\<lambda>t. fstr (sort_key_of t)) (rev tags))))"

definition tags_url :: "config \<Rightarrow> pystr \<Rightarrow> string" where
  "tags_url cfg repo =
     DOCKERHUB_API @ ''/repositories/'' @ DOCKERHUB_NAMESPACE cfg @ ''/'' @ fstr repo
       @ ''/tags/?page_size=100''"

definition get_tags ::
  "world \<Rightarrow> config \<Rightarrow> pystr \<Rightarrow> pystr \<Rightarrow> ((error + tag list) \<times> call list) option" where
  "get_tags w cfg token repo =
     (case paginate w (tags_url cfg repo) token of
        None \<Rightarrow> None
      | Some (Inl e, calls) \<Rightarrow> Some (Inl e, calls)
      | Some (Inr tags, calls) \<Rightarrow> Some (sorted_newest_first tags, calls))"

text \<open>\<open>delete_tag(token, repo, tag)\<close>: one DELETE; success is status 204 and nothing else.\<close>

definition delete_url :: "config \<Rightarrow> pystr \<Rightarrow> pystr \<Rightarrow> string" where
  "delete_url cfg repo tg =
     DOCKERHUB_API @ ''/repositories/'' @ DOCKERHUB_NAMESPACE cfg @ ''/'' @ fstr repo
       @ ''/tags/'' @ fstr tg @ ''/''"

definition delete_tag ::
  "world \<Rightarrow> config \<Rightarrow> pystr \<Rightarrow> pystr \<Rightarrow> pystr \<Rightarrow> (error + bool) \<times> call list" where
  "delete_tag w cfg token repo tg =
     (let url = delete_url cfg repo tg in
      (case http_delete w url of
         Inl e \<Rightarrow> Inl e
       | Inr status \<Rightarrow> Inr (status = 204),
       [DELETE url token]))"

section \<open>Per-repository processing\<close>

record stats =
  checked :: int
  deleted :: int
  kept :: int
  errors :: int

text \<open>
  The \<open>for rank, tag in enumerate(tags)\<close> loop of \<open>process_repo\<close>, from \<open>rank\<close> on, with the
  counters and the calls made so far. An exception of \<open>evaluate_tag\<close> or of the DELETE
  request leaves the loop: nothing in \<open>process_repo\<close> catches it.
\<close>

fun process_tags ::
  "config \<Rightarrow> isoparser \<Rightarrow> world \<Rightarrow> pystr \<Rightarrow> pystr \<Rightarrow> nat \<Rightarrow> tag list \<Rightarrow> stats \<Rightarrow> call list
     \<Rightarrow> (error + stats) \<times> call list" where
  "process_tags cfg parse w token repo rank [] st calls = (Inr st, calls)"
| "process_tags cfg parse w token repo rank (t # ts) st calls =
     (let nm = dict_get (name t) ''unknown'' in
      case evaluate_tag cfg parse (clock w repo rank) t (int rank) of
        Inl e \<Rightarrow> (Inl e, calls)
      | Inr (should_delete, reason) \<Rightarrow>
          if should_delete then
            if DRY_RUN cfg then
              process_tags cfg parse w token repo (Suc rank) ts
                (st\<lparr>deleted := deleted st + 1\<rparr>) calls
            else
              (case delete_tag w cfg token repo nm of
                 (Inl e, c) \<Rightarrow> (Inl e, calls @ c)
               | (Inr ok, c) \<Rightarrow>
                   if ok then
                     process_tags cfg parse w token repo (Suc rank) ts
                       (st\<lparr>deleted := deleted st + 1\<rparr>) (calls @ c)
                   else
                     process_tags cfg parse w token repo (Suc rank) ts
                       (st\<lparr>errors := errors st + 1\<rparr>) (calls @ c))
          else
            process_tags cfg parse w token repo (Suc rank) ts
              (st\<lparr>kept := kept st + 1\<rparr>) calls)"

definition process_repo ::
  "config \<Rightarrow> isoparser \<Rightarrow> world \<Rightarrow> pystr \<Rightarrow> pystr \<Rightarrow> ((error + stats) \<times> call list) option" where
  "process_repo cfg parse w token repo =
     (case get_tags w cfg token repo of
        None \<Rightarrow> None
      | Some (Inl e, calls) \<Rightarrow> Some (Inl e, calls)
      | Some (Inr tags, calls) \<Rightarrow>
          Some (process_tags cfg parse w token repo 0 tags
                  \<lparr>checked = int (length tags), deleted = 0, kept = 0, errors = 0\<rparr> calls))"

section \<open>Core cleanup run\<close>

definition add_stats :: "stats \<Rightarrow> stats \<Rightarrow> stats" where
  "add_stats totals st =
     \<lparr>checked = checked totals + checked st, deleted = deleted totals + deleted st,
      kept = kept totals + kept st, errors = errors totals + errors st\<rparr>"

text \<open>
  The \<open>for repo in repos\<close> loop of \<open>run_cleanup\<close>. The call of \<open>process_repo\<close> is not
  guarded: its exception ends the loop and the run.
\<close>

fun process_repos ::
  "config \<Rightarrow> isoparser \<Rightarrow> world \<Rightarrow> pystr \<Rightarrow> pystr list \<Rightarrow> stats \<Rightarrow> call list
     \<Rightarrow> ((error + stats) \<times> call list) option" where
  "process_repos cfg parse w token [] totals calls = Some (Inr totals, calls)"
| "process_repos cfg parse w token (repo # repos) totals calls =
     (case process_repo cfg parse w token repo of
        None \<Rightarrow> None
      | Some (Inl e, c) \<Rightarrow> Some (Inl e, calls @ c)
      | Some (Inr st, c) \<Rightarrow>
          process_repos cfg parse w token repos (add_stats totals st) (calls @ c))"

definition zero_stats :: stats where
  "zero_stats = \<lparr>checked = 0, deleted = 0, kept = 0, errors = 0\<rparr>"

text \<open>
  \<open>run_cleanup()\<close>. The Python function returns nothing and logs its totals; the model
  returns the totals it logs, or the exception it lets through, with the calls made.
\<close>

definition run_cleanup ::
  "config \<Rightarrow> isoparser \<Rightarrow> world \<Rightarrow> ((error + stats) \<times> call list) option" where
  "run_cleanup cfg parse w =
     (case get_token w of
        (Inl e, c) \<Rightarrow> Some (Inl e, c)
      | (Inr token, c) \<Rightarrow>
          (case (if REPOS_TO_CLEAN cfg \<noteq> [] then Some (Inr (map Some (REPOS_TO_CLEAN cfg)), [])
                 else get_repositories w cfg token) of
             None \<Rightarrow> None
           | Some (Inl e, c2) \<Rightarrow> Some (Inl e, c @ c2)
           | Some (Inr repos, c2) \<Rightarrow>
               process_repos cfg parse w token repos zero_stats (c @ c2)))"

section \<open>Entry point\<close>

text \<open>
  \<open>safe_run_cleanup()\<close>: \<open>except Exception\<close> catches whatever \<open>run_cleanup\<close> raises and
  logs it. The result is what the caller sees (always a normal return) together with the
  record of the run underneath.
\<close>

type_synonym run = "(error + stats) \<times> call list"

definition safe_run_cleanup ::
  "config \<Rightarrow> isoparser \<Rightarrow> world \<Rightarrow> ((error + unit) \<times> run) option" where
  "safe_run_cleanup cfg parse w =
     (case run_cleanup cfg parse w of
        None \<Rightarrow> None
      | Some (Inl exc, c) \<Rightarrow> Some (Inr (), (Inl exc, c))
      | Some (Inr totals, c) \<Rightarrow> Some (Inr (), (Inr totals, c)))"

text \<open>
  How \<open>main\<close> ends: it returns, it calls \<open>sys.exit\<close>, or an exception leaves it. The
  interpreter turns the first into exit status 0 and an uncaught exception into 1.
\<close>

datatype exit = Returned | SysExit int | Uncaught error

fun exit_status :: "exit \<Rightarrow> int" where
  "exit_status Returned = 0"
| "exit_status (SysExit n) = n"
| "exit_status (Uncaught e) = 1"

text \<open>
  The jobs the scheduler runs, one per tick, each in the world of its tick. A job that
  raised would end the sequence with its exception.
\<close>

fun scheduled_runs ::
  "config \<Rightarrow> isoparser \<Rightarrow> world list \<Rightarrow> ((error + unit) \<times> run list) option" where
  "scheduled_runs cfg parse [] = Some (Inr (), [])"
| "scheduled_runs cfg parse (w # ws) =
     (case safe_run_cleanup cfg parse w of
        None \<Rightarrow> None
      | Some (Inl e, r) \<Rightarrow> Some (Inl e, [r])
      | Some (Inr _, r) \<Rightarrow>
          (case scheduled_runs cfg parse ws of
             None \<Rightarrow> None
           | Some (res, rs) \<Rightarrow> Some (res, r # rs)))"

text \<open>
  \<open>main()\<close>. \<open>from_crontab s\<close> says whether \<open>CronTrigger.from_crontab\<close> accepts the
  expression (the scheduler library is outside the script). \<open>w0\<close> is the world of the
  first run and \<open>ticks\<close> are the worlds of the scheduled ticks that fire before the
  scheduler is interrupted and \<open>main\<close> logs that it stopped. The result is how \<open>main\<close>
  ends and the record of every run it made.
\<close>

definition main ::
  "config \<Rightarrow> isoparser \<Rightarrow> (string \<Rightarrow> bool) \<Rightarrow> world \<Rightarrow> world list \<Rightarrow> (exit \<times> run list) option" where
  "main cfg parse from_crontab w0 ticks =
     (if DOCKERHUB_USERNAME cfg = [] \<or> DOCKERHUB_TOKEN cfg = [] then Some (SysExit 1, [])
      else if CRON_SCHEDULE cfg = [] then
        (case run_cleanup cfg parse w0 of
           None \<Rightarrow> None
         | Some (Inl e, c) \<Rightarrow> Some (Uncaught e, [(Inl e, c)])
         | Some (Inr totals, c) \<Rightarrow> Some (Returned, [(Inr totals, c)]))
      else if \<not> from_crontab (CRON_SCHEDULE cfg) then Some (SysExit 1, [])
      else
        (case scheduled_runs cfg parse (w0 # ticks) of
           None \<Rightarrow> None
         | Some (Inl e, rs) \<Rightarrow> Some (Uncaught e, rs)
         | Some (Inr _, rs) \<Rightarrow> Some (Returned, rs)))"

section \<open>Notions used to state the properties\<close>

text \<open>
  The server serves a finite chain of pages from a cursor: each page is fetched without an
  exception and links to the next one, and the last page has no usable \<open>next\<close>.
\<close>

fun serves_chain :: "world \<Rightarrow> pystr \<Rightarrow> (string \<times> tag list) list \<Rightarrow> bool" where
  "serves_chain w cursor [] = (\<not> truthy cursor)"
| "serves_chain w cursor ((u, rs) # rest) =
     (truthy cursor \<and> fstr cursor = u \<and>
      (case fetch_page w u of
         Inl e \<Rightarrow> False
       | Inr (rs', nxt) \<Rightarrow> rs' = rs \<and> serves_chain w nxt rest))"

text \<open>The same chain, but the request after its last page, for \<open>u\<close>, raises \<open>e\<close>.\<close>

fun fails_after ::
  "world \<Rightarrow> pystr \<Rightarrow> (string \<times> tag list) list \<Rightarrow> string \<Rightarrow> error \<Rightarrow> bool" where
  "fails_after w cursor [] u e = (truthy cursor \<and> fstr cursor = u \<and> fetch_page w u = Inl e)"
| "fails_after w cursor ((u', rs) # rest) u e =
     (truthy cursor \<and> fstr cursor = u' \<and>
      (case fetch_page w u' of
         Inl e' \<Rightarrow> False
       | Inr (rs', nxt) \<Rightarrow> rs' = rs \<and> fails_after w nxt rest u e))"

definition gets :: "pystr \<Rightarrow> (string \<times> tag list) list \<Rightarrow> call list" where
  "gets token pages = map (\<lambda>p. GET (fst p) token) pages"

text \<open>
  The delete predicate on the tag at \<open>rank\<close> of a repository: \<open>evaluate_tag\<close> returns and
  says delete. \<open>evaluates\<close> only says that it returns.
\<close>

definition decides_delete ::
  "config \<Rightarrow> isoparser \<Rightarrow> world \<Rightarrow> pystr \<Rightarrow> nat \<Rightarrow> tag \<Rightarrow> bool" where
  "decides_delete cfg parse w repo rank t =
     (case evaluate_tag cfg parse (clock w repo rank) t (int rank) of
        Inl e \<Rightarrow> False
      | Inr (should_delete, reason) \<Rightarrow> should_delete)"

definition evaluates ::
  "config \<Rightarrow> isoparser \<Rightarrow> world \<Rightarrow> pystr \<Rightarrow> nat \<Rightarrow> tag \<Rightarrow> bool" where
  "evaluates cfg parse w repo rank t =
     (case evaluate_tag cfg parse (clock w repo rank) t (int rank) of
        Inl e \<Rightarrow> False
      | Inr d \<Rightarrow> True)"

fun all_evaluate ::
  "config \<Rightarrow> isoparser \<Rightarrow> world \<Rightarrow> pystr \<Rightarrow> nat \<Rightarrow> tag list \<Rightarrow> bool" where
  "all_evaluate cfg parse w repo rank [] = True"
| "all_evaluate cfg parse w repo rank (t # ts) =
     (evaluates cfg parse w repo rank t \<and> all_evaluate cfg parse w repo (Suc rank) ts)"

text \<open>The eligible tags of a list whose first element has rank \<open>rank\<close>, in rank order.\<close>

fun eligible ::
  "config \<Rightarrow> isoparser \<Rightarrow> world \<Rightarrow> pystr \<Rightarrow> nat \<Rightarrow> tag list \<Rightarrow> tag list" where
  "eligible cfg parse w repo rank [] = []"
| "eligible cfg parse w repo rank (t # ts) =
     (if decides_delete cfg parse w repo rank t
      then t # eligible cfg parse w repo (Suc rank) ts
      else eligible cfg parse w repo (Suc rank) ts)"

text \<open>The DELETE request for a tag, and how the registry answers it.\<close>

definition delete_call :: "config \<Rightarrow> pystr \<Rightarrow> pystr \<Rightarrow> tag \<Rightarrow> call" where
  "delete_call cfg token repo t =
     DELETE (delete_url cfg repo (dict_get (name t) ''unknown'')) token"

definition delete_answer :: "world \<Rightarrow> config \<Rightarrow> pystr \<Rightarrow> tag \<Rightarrow> error + nat" where
  "delete_answer w cfg repo t =
     http_delete w (delete_url cfg repo (dict_get (name t) ''unknown''))"

definition answered :: "world \<Rightarrow> config \<Rightarrow> pystr \<Rightarrow> tag \<Rightarrow> bool" where
  "answered w cfg repo t = (case delete_answer w cfg repo t of Inl e \<Rightarrow> False | Inr s \<Rightarrow> True)"

definition confirmed :: "world \<Rightarrow> config \<Rightarrow> pystr \<Rightarrow> tag \<Rightarrow> bool" where
  "confirmed w cfg repo t = (delete_answer w cfg repo t = Inr 204)"

definition is_delete :: "call \<Rightarrow> bool" where
  "is_delete c = (case c of DELETE u k \<Rightarrow> True | _ \<Rightarrow> False)"

definition partitioned :: "stats \<Rightarrow> bool" where
  "partitioned st = (checked st = deleted st + kept st + errors st)"

text \<open>
  What a returned result of the loop must come from: a complete chain of pages when it is
  a list, a chain up to a failing request when it is an exception.
\<close>

definition explained ::
  "world \<Rightarrow> pystr \<Rightarrow> pystr \<Rightarrow> tag list \<Rightarrow> call list \<Rightarrow> (error + tag list) \<times> call list
     \<Rightarrow> bool" where
  "explained w token cursor acc calls y =
     (case fst y of
        Inr xs \<Rightarrow> \<exists>pages. serves_chain w cursor pages \<and> xs = acc @ concat (map snd pages)
                    \<and> snd y = calls @ gets token pages
      | Inl e \<Rightarrow> \<exists>pages u. fails_after w cursor pages u e
                    \<and> snd y = calls @ gets token pages @ [GET u token])"

section \<open>A registry to run the script against\<close>

definition example_config :: config where
  "example_config =
     \<lparr>DOCKERHUB_USERNAME = ''acme'', DOCKERHUB_TOKEN = ''secret'',
      DOCKERHUB_NAMESPACE = ''acme'', KEEP_LAST_N = 2, MIN_AGE_DAYS = 7, DRY_RUN = True,
      REPOS_TO_CLEAN = [''app''], EXCLUDE_TAGS = [''latest''], CRON_SCHEDULE = ''''\<rparr>"

definition live_config :: config where
  "live_config = example_config\<lparr>DRY_RUN := False\<rparr>"

definition cron_config :: config where
  "cron_config = example_config\<lparr>CRON_SCHEDULE := ''0 3 * * 0''\<rparr>"

text \<open>
  Midnight UTC of a day, counted from the epoch, and the timestamps of the example:
  1 March 2024 is day 19783.
\<close>

definition midnight :: "int \<Rightarrow> datetime" where
  "midnight d = Aware (d * us_per_day)"

definition example_parse :: isoparser where
  "example_parse =
     map_of
       [(''2024-02-29T00:00:00+00:00'', midnight 19782),
        (''2024-02-24T00:00:00+00:00'', midnight 19777),
        (''2024-02-23T00:00:00+00:00'', midnight 19776),
        (''2024-02-10T00:00:00+00:00'', midnight 19763),
        (''2024-01-01T00:00:00+00:00'', midnight 19723)]"

definition example_now :: int where
  "example_now = 19783 * us_per_day"

definition mk_tag :: "string \<Rightarrow> string \<Rightarrow> tag" where
  "mk_tag n ts = \<lparr>name = Val n, last_updated = Val ts\<rparr>"

definition t_latest :: tag where "t_latest = mk_tag ''latest'' ''2024-02-29T00:00:00Z''"
definition t_v3 :: tag where "t_v3 = mk_tag ''v3'' ''2024-02-24T00:00:00Z''"
definition t_v2 :: tag where "t_v2 = mk_tag ''v2'' ''2024-02-23T00:00:00Z''"
definition t_v1 :: tag where "t_v1 = mk_tag ''v1'' ''2024-02-10T00:00:00Z''"
definition t_v0 :: tag where "t_v0 = mk_tag ''v0'' ''2024-01-01T00:00:00Z''"
definition t_undated :: tag where "t_undated = \<lparr>name = Val ''v9'', last_updated = Null\<rparr>"

definition page2_url :: string where
  "page2_url = ''https://hub.docker.com/v2/repositories/acme/app/tags/?page=2&page_size=100''"

definition ok_page :: "tag list \<Rightarrow> string field \<Rightarrow> error + page response" where
  "ok_page rs nxt = Inr \<lparr>status_code = 200, json = Some \<lparr>results = Val rs, next = nxt\<rparr>\<rparr>"

text \<open>
  The repository \<open>acme/app\<close> with five tags on two pages; login succeeds at once; the
  DELETE of \<open>v1\<close> is refused with status 500, the others are answered 204.
\<close>

definition example_world :: world where
  "example_world =
     \<lparr>post_login = (\<lambda>k. Inr \<lparr>status_code = 200, json = Some (Val ''jwt'')\<rparr>),
      http_get = (\<lambda>url.
        if url = tags_url example_config (Some ''app'')
        then ok_page [t_v2, t_latest, t_v0] (Val page2_url)
        else if url = page2_url then ok_page [t_v3, t_v1] Null
        else Inr \<lparr>status_code = 404, json = None\<rparr>),
      http_delete = (\<lambda>url.
        if url = delete_url example_config (Some ''app'') (Some ''v1'') then Inr 500
        else Inr 204),
      clock = (\<lambda>repo rank. example_now)\<rparr>"

text \<open>The same registry, but the connection drops during the DELETE of \<open>v2\<close>.\<close>

definition dropping_world :: world where
  "dropping_world =
     example_world\<lparr>http_delete := (\<lambda>url.
        if url = delete_url example_config (Some ''app'') (Some ''v2'') then Inl ConnectionError
        else Inr 204)\<rparr>"

text \<open>
  The same registry, but the tag \<open>v1\<close> carries a timestamp that is not ISO 8601; every
  DELETE is answered 204.
\<close>

definition t_garbled :: tag where
  "t_garbled = mk_tag ''v1'' ''2024-02-10Tgarbage''"

definition garbled_world :: world where
  "garbled_world =
     example_world\<lparr>http_get := (\<lambda>url.
        if url = tags_url example_config (Some ''app'')
        then ok_page [t_v2, t_latest, t_v0] (Val page2_url)
        else if url = page2_url then ok_page [t_v3, t_garbled] Null
        else Inr \<lparr>status_code = 404, json = None\<rparr>),
      http_delete := (\<lambda>url. Inr 204)\<rparr>"

text \<open>The same registry, but the second page of the tag listing answers 500.\<close>

definition broken_listing_world :: world where
  "broken_listing_world =
     example_world\<lparr>http_get := (\<lambda>url.
        if url = tags_url example_config (Some ''app'')
        then ok_page [t_v2, t_latest, t_v0] (Val page2_url)
        else Inr \<lparr>status_code = 500, json = None\<rparr>)\<rparr>"

text \<open>
  The same registry, but login answers 503 twice before it hands out a token, as in the
  test \<open>test_retries_on_503_then_succeeds\<close>.
\<close>

definition flaky_login_world :: world where
  "flaky_login_world =
     example_world\<lparr>post_login := (\<lambda>k.
        if k < 2 then Inr \<lparr>status_code = 503, json = None\<rparr>
        else Inr \<lparr>status_code = 200, json = Some (Val ''retried'')\<rparr>)\<rparr>"

definition login_url :: string where
  "login_url = DOCKERHUB_API @ ''/users/login''"

text \<open>
  Names for what the example produces: the token, the repository, its tags newest first,
  the two GETs of its listing, and a configuration that also names a repository \<open>web\<close>
  the registry does not have.
\<close>

definition jwt :: pystr where
  "jwt = Some ''jwt''"

definition app :: pystr where
  "app = Some ''app''"

definition example_tags :: "tag list" where
  "example_tags = [t_latest, t_v3, t_v2, t_v1, t_v0]"

definition example_gets :: "call list" where
  "example_gets = [GET (tags_url example_config app) jwt, GET page2_url jwt]"

definition two_repo_config :: config where
  "two_repo_config = live_config\<lparr>REPOS_TO_CLEAN := [''web'', ''app'']\<rparr>"

definition three_repo_config :: config where
  "three_repo_config = live_config\<lparr>REPOS_TO_CLEAN := [''app'', ''web'', ''app'']\<rparr>"

definition all_repos_config :: config where
  "all_repos_config = live_config\<lparr>REPOS_TO_CLEAN := []\<rparr>"

text \<open>A registry whose every listing is one empty page.\<close>

definition empty_world :: world where
  "empty_world = example_world\<lparr>http_get := (\<lambda>url. ok_page [] Null)\<rparr>"

definition bad_cron_config :: config where
  "bad_cron_config = example_config\<lparr>CRON_SCHEDULE := ''every sunday''\<rparr>"

text \<open>A stand-in for the cron parser of the scheduler library: it accepts one expression.\<close>

definition example_from_crontab :: "string \<Rightarrow> bool" where
  "example_from_crontab s = (s = ''0 3 * * 0'')"

section \<open>Pagination\<close>



lemma paginate_loop_stop:
  "\<not> truthy cursor \<Longrightarrow> paginate_loop w token cursor acc calls = Some (Inr acc, calls)"
  by (subst paginate_loop.simps) simp

lemma paginate_loop_step:
  "truthy cursor \<Longrightarrow> fetch_page w (fstr cursor) = Inr (rs, nxt) \<Longrightarrow>
   paginate_loop w token cursor acc calls
     = paginate_loop w token nxt (acc @ rs) (calls @ [GET (fstr cursor) token])"
  by (subst paginate_loop.simps) simp

lemma paginate_loop_raise:
  "truthy cursor \<Longrightarrow> fetch_page w (fstr cursor) = Inl e \<Longrightarrow>
   paginate_loop w token cursor acc calls = Some (Inl e, calls @ [GET (fstr cursor) token])"
  by (subst paginate_loop.simps) simp

lemma paginate_loop_chain:
  "serves_chain w cursor pages \<Longrightarrow>
   paginate_loop w token cursor acc calls
     = Some (Inr (acc @ concat (map snd pages)), calls @ gets token pages)"
proof (induction pages arbitrary: cursor acc calls)
  case Nil
  then show ?case by (simp add: paginate_loop_stop gets_def)
next
  case (Cons p rest)
  obtain u rs where p: "p = (u, rs)" by (cases p)
  from Cons.prems p obtain nxt where
    t: "truthy cursor" and u: "fstr cursor = u" and
    f: "fetch_page w u = Inr (rs, nxt)" and r: "serves_chain w nxt rest"
    by (auto split: sum.splits)
  have "paginate_loop w token cursor acc calls
          = paginate_loop w token nxt (acc @ rs) (calls @ [GET u token])"
    using paginate_loop_step [OF t, of w rs nxt token acc calls] f u by simp
  also have "\<dots> = Some (Inr ((acc @ rs) @ concat (map snd rest)),
                        (calls @ [GET u token]) @ gets token rest)"
    by (rule Cons.IH [OF r])
  finally show ?case by (simp add: p gets_def)
qed

lemma paginate_loop_fails:
  "fails_after w cursor pages u e \<Longrightarrow>
   paginate_loop w token cursor acc calls
     = Some (Inl e, calls @ gets token pages @ [GET u token])"
proof (induction pages arbitrary: cursor acc calls)
  case Nil
  then show ?case using paginate_loop_raise [of cursor w e token acc calls] by (simp add: gets_def)
next
  case (Cons p rest)
  obtain u' rs where p: "p = (u', rs)" by (cases p)
  from Cons.prems p obtain nxt where
    t: "truthy cursor" and u: "fstr cursor = u'" and
    f: "fetch_page w u' = Inr (rs, nxt)" and r: "fails_after w nxt rest u e"
    by (auto split: sum.splits)
  have "paginate_loop w token cursor acc calls
          = paginate_loop w token nxt (acc @ rs) (calls @ [GET u' token])"
    using paginate_loop_step [OF t, of w rs nxt token acc calls] f u by simp
  also have "\<dots> = Some (Inl e, (calls @ [GET u' token]) @ gets token rest @ [GET u token])"
    by (rule Cons.IH [OF r])
  finally show ?case by (simp add: p gets_def)
qed


lemma explained_stop:
  assumes "\<not> truthy cursor"
  shows "explained w token cursor acc calls (Inr acc, calls)"
proof -
  have "serves_chain w cursor []" using assms by simp
  then show ?thesis unfolding explained_def by (auto simp: gets_def intro!: exI [of _ "[]"])
qed

lemma explained_raise:
  assumes "truthy cursor" and "fetch_page w (fstr cursor) = Inl e"
  shows "explained w token cursor acc calls (Inl e, calls @ [GET (fstr cursor) token])"
proof -
  have "fails_after w cursor [] (fstr cursor) e" using assms by simp
  then show ?thesis unfolding explained_def
    by (auto simp: gets_def intro!: exI [of _ "[]"] exI [of _ "fstr cursor"])
qed

lemma explained_step:
  assumes t: "truthy cursor" and f: "fetch_page w (fstr cursor) = Inr (rs, nxt)"
    and y: "explained w token nxt (acc @ rs) (calls @ [GET (fstr cursor) token]) y"
  shows "explained w token cursor acc calls y"
proof (cases "fst y")
  case (Inr xs)
  with y obtain pages where
    c: "serves_chain w nxt pages" and x: "xs = (acc @ rs) @ concat (map snd pages)"
    and s: "snd y = (calls @ [GET (fstr cursor) token]) @ gets token pages"
    unfolding explained_def by auto
  have "serves_chain w cursor ((fstr cursor, rs) # pages)" using t f c by simp
  moreover have "xs = acc @ concat (map snd ((fstr cursor, rs) # pages))" using x by simp
  moreover have "snd y = calls @ gets token ((fstr cursor, rs) # pages)"
    using s by (simp add: gets_def)
  ultimately have "\<exists>ps. serves_chain w cursor ps \<and> xs = acc @ concat (map snd ps)
                     \<and> snd y = calls @ gets token ps"
    by blast
  then show ?thesis unfolding explained_def using Inr by simp
next
  case (Inl e)
  with y obtain pages u where
    c: "fails_after w nxt pages u e"
    and s: "snd y = (calls @ [GET (fstr cursor) token]) @ gets token pages @ [GET u token]"
    unfolding explained_def by auto
  have "fails_after w cursor ((fstr cursor, rs) # pages) u e" using t f c by simp
  moreover have "snd y = calls @ gets token ((fstr cursor, rs) # pages) @ [GET u token]"
    using s by (simp add: gets_def)
  ultimately have "\<exists>ps v. fails_after w cursor ps v e
                     \<and> snd y = calls @ gets token ps @ [GET v token]"
    by blast
  then show ?thesis unfolding explained_def using Inl by simp
qed

lemma paginate_loop_explained:
  "paginate_loop w token cursor acc calls = Some y \<Longrightarrow> explained w token cursor acc calls y"
proof (induction rule: paginate_loop.raw_induct [rotated 1, consumes 1, case_names step])
  case (step f w token url acc calls y)
  show ?case
  proof (cases "truthy url")
    case False
    with step(2) show ?thesis by (auto intro: explained_stop)
  next
    case True
    show ?thesis
    proof (cases "fetch_page w (fstr url)")
      case (Inl e)
      with True step(2) show ?thesis by (auto intro: explained_raise)
    next
      case (Inr p)
      obtain rs nxt where p: "p = (rs, nxt)" by (cases p)
      with True Inr step(2) have "f w token nxt (acc @ rs) (calls @ [GET (fstr url) token]) = Some y"
        by simp
      then have "explained w token nxt (acc @ rs) (calls @ [GET (fstr url) token]) y"
        by (rule step(1))
      then show ?thesis using True Inr p by (auto intro: explained_step)
    qed
  qed
qed

text \<open>
  Claim C8. \<open>paginate\<close> follows the \<open>next\<close> cursor until it is exhausted and returns
  every page's results, concatenated in page order. When the server serves a finite chain
  of pages, the call returns exactly that concatenation, after one GET per page; when a
  request of the chain raises, the call raises and hands out no results at all; and
  whatever list the call returns is the concatenation of a complete chain, never of a
  part of it. A page whose \<open>next\<close> is absent or null is the last one.
\<close>

theorem paginate_returns_all_pages_in_order:
  "(\<forall>pages. serves_chain w (Some url) pages \<longrightarrow>
       paginate w url token = Some (Inr (concat (map snd pages)), gets token pages))
   \<and> (\<forall>pages u e. fails_after w (Some url) pages u e \<longrightarrow>
       paginate w url token = Some (Inl e, gets token pages @ [GET u token]))
   \<and> (\<forall>xs calls. paginate w url token = Some (Inr xs, calls) \<longrightarrow>
       (\<exists>pages. serves_chain w (Some url) pages \<and> xs = concat (map snd pages)
                 \<and> calls = gets token pages))
   \<and> (\<forall>resp data rs.
         url \<noteq> [] \<and> http_get w url = Inr resp \<and> status_code resp < 400
         \<and> json resp = Some data \<and> results data = Val rs
         \<and> (next data = Absent \<or> next data = Null) \<longrightarrow>
         paginate w url token = Some (Inr rs, [GET url token]))"
proof (intro conjI allI impI)
  fix pages assume "serves_chain w (Some url) pages"
  then show "paginate w url token = Some (Inr (concat (map snd pages)), gets token pages)"
    using paginate_loop_chain [of w "Some url" pages token "[]" "[]"] by (simp add: paginate_def)
next
  fix pages u e assume "fails_after w (Some url) pages u e"
  then show "paginate w url token = Some (Inl e, gets token pages @ [GET u token])"
    using paginate_loop_fails [of w "Some url" pages u e token "[]" "[]"]
    by (simp add: paginate_def)
next
  fix xs calls assume "paginate w url token = Some (Inr xs, calls)"
  then have "explained w token (Some url) [] [] (Inr xs, calls)"
    unfolding paginate_def by (rule paginate_loop_explained)
  then show "\<exists>pages. serves_chain w (Some url) pages \<and> xs = concat (map snd pages)
                 \<and> calls = gets token pages"
    by (simp add: explained_def)
next
  fix resp data rs
  assume h: "url \<noteq> [] \<and> http_get w url = Inr resp \<and> status_code resp < 400
         \<and> json resp = Some data \<and> results data = Val rs
         \<and> (next data = Absent \<or> next data = Null)"
  then have "fetch_page w url = Inr (rs, None)"
    by (auto simp: fetch_page_def raise_for_status_def resp_json_def)
  with h have "serves_chain w (Some url) [(url, rs)]" by simp
  then show "paginate w url token = Some (Inr rs, [GET url token])"
    using paginate_loop_chain [of w "Some url" "[(url, rs)]" token "[]" "[]"]
    by (simp add: paginate_def gets_def)
qed

text \<open>The two pages of the example, and the listing whose second page answers 500.\<close>

theorem paginate_returns_all_pages_in_order_witness:
  "serves_chain example_world (Some (tags_url example_config (Some ''app'')))
     [(tags_url example_config (Some ''app''), [t_v2, t_latest, t_v0]), (page2_url, [t_v3, t_v1])]
   \<and> paginate example_world (tags_url example_config (Some ''app'')) (Some ''jwt'')
       = Some (Inr [t_v2, t_latest, t_v0, t_v3, t_v1],
               [GET (tags_url example_config (Some ''app'')) (Some ''jwt''),
                GET page2_url (Some ''jwt'')])
   \<and> fails_after broken_listing_world (Some (tags_url example_config (Some ''app'')))
       [(tags_url example_config (Some ''app''), [t_v2, t_latest, t_v0])] page2_url (HTTPError 500)
   \<and> paginate broken_listing_world (tags_url example_config (Some ''app'')) (Some ''jwt'')
       = Some (Inl (HTTPError 500),
               [GET (tags_url example_config (Some ''app'')) (Some ''jwt''),
                GET page2_url (Some ''jwt'')])
   \<and> (\<exists>pages. serves_chain example_world (Some (tags_url example_config (Some ''app''))) pages
         \<and> [t_v2, t_latest, t_v0, t_v3, t_v1] = concat (map snd pages))
   \<and> paginate example_world page2_url (Some ''jwt'')
       = Some (Inr [t_v3, t_v1], [GET page2_url (Some ''jwt'')])"
proof -
  let ?U = "tags_url example_config (Some ''app'')"
  have a: "serves_chain example_world (Some ?U)
             [(?U, [t_v2, t_latest, t_v0]), (page2_url, [t_v3, t_v1])]"
    by code_simp
  have b: "fails_after broken_listing_world (Some ?U) [(?U, [t_v2, t_latest, t_v0])]
             page2_url (HTTPError 500)"
    by code_simp
  note th1 = paginate_returns_all_pages_in_order [of example_world ?U "Some ''jwt''"]
  note th2 = paginate_returns_all_pages_in_order [of broken_listing_world ?U "Some ''jwt''"]
  from th1 [THEN conjunct1, rule_format, OF a] have c: "paginate example_world ?U (Some ''jwt'')
       = Some (Inr [t_v2, t_latest, t_v0, t_v3, t_v1],
               [GET ?U (Some ''jwt''), GET page2_url (Some ''jwt'')])"
    by (simp add: gets_def)
  from th2 [THEN conjunct2, THEN conjunct1, rule_format, OF b]
  have d: "paginate broken_listing_world ?U (Some ''jwt'')
       = Some (Inl (HTTPError 500), [GET ?U (Some ''jwt''), GET page2_url (Some ''jwt'')])"
    by (simp add: gets_def)
  from th1 [THEN conjunct2, THEN conjunct2, THEN conjunct1, rule_format, OF c]
  have e: "\<exists>pages. serves_chain example_world (Some ?U) pages
         \<and> [t_v2, t_latest, t_v0, t_v3, t_v1] = concat (map snd pages)"
    by blast
  have f: "page2_url \<noteq> []
           \<and> http_get example_world page2_url
               = Inr \<lparr>status_code = 200, json = Some \<lparr>results = Val [t_v3, t_v1], next = Null\<rparr>\<rparr>
           \<and> status_code \<lparr>status_code = 200,
                            json = Some \<lparr>results = Val [t_v3, t_v1], next = Null\<rparr>\<rparr> < 400
           \<and> json \<lparr>status_code = 200, json = Some \<lparr>results = Val [t_v3, t_v1], next = Null\<rparr>\<rparr>
               = Some \<lparr>results = Val [t_v3, t_v1], next = Null\<rparr>
           \<and> results \<lparr>results = Val [t_v3, t_v1], next = Null\<rparr> = Val [t_v3, t_v1]
           \<and> (next \<lparr>results = Val [t_v3, t_v1], next = Null\<rparr> = Absent
                \<or> next \<lparr>results = Val [t_v3, t_v1], next = Null\<rparr> = Null)"
    by code_simp
  note th3 = paginate_returns_all_pages_in_order [of example_world page2_url "Some ''jwt''"]
  from th3 [THEN conjunct2, THEN conjunct2, THEN conjunct2, THEN spec, THEN spec, THEN spec,
            THEN mp, OF f]
  have g: "paginate example_world page2_url (Some ''jwt'')
             = Some (Inr [t_v3, t_v1], [GET page2_url (Some ''jwt'')])" .
  from a b c d e g show ?thesis by blast
qed

section \<open>The dry-run flag\<close>

text \<open>
  Claim C10. \<open>DRY_RUN\<close> is true exactly when the value of the environment variable,
  lowercased, is \<open>true\<close>, \<open>1\<close> or \<open>yes\<close>, the unset variable counting as \<open>true\<close>. Every
  other value gives false: \<open>on\<close>, \<open>TRUE\<close> with a trailing space, \<open>false\<close> and the empty
  string among them. False means live deletions: with \<open>DRY_RUN=on\<close> the run over the
  example repository issues its three DELETE requests.
\<close>

theorem dry_run_flag_from_env:
  "(DRY_RUN_from_env env \<longleftrightarrow>
      (case env ''DRY_RUN'' of
         None \<Rightarrow> True
       | Some v \<Rightarrow> lower v = ''true'' \<or> lower v = ''1'' \<or> lower v = ''yes''))
   \<and> DRY_RUN_from_env Map.empty
   \<and> DRY_RUN_from_env [''DRY_RUN'' \<mapsto> ''TRUE'']
   \<and> DRY_RUN_from_env [''DRY_RUN'' \<mapsto> ''Yes'']
   \<and> DRY_RUN_from_env [''DRY_RUN'' \<mapsto> ''1'']
   \<and> \<not> DRY_RUN_from_env [''DRY_RUN'' \<mapsto> ''on'']
   \<and> \<not> DRY_RUN_from_env [''DRY_RUN'' \<mapsto> ''TRUE '']
   \<and> \<not> DRY_RUN_from_env [''DRY_RUN'' \<mapsto> ''false'']
   \<and> \<not> DRY_RUN_from_env [''DRY_RUN'' \<mapsto> '''']
   \<and> process_repo (example_config\<lparr>DRY_RUN := DRY_RUN_from_env [''DRY_RUN'' \<mapsto> ''on'']\<rparr>)
         example_parse example_world jwt app
       = Some (Inr \<lparr>checked = 5, deleted = 2, kept = 2, errors = 1\<rparr>,
               example_gets @ [delete_call example_config jwt app t_v2,
                               delete_call example_config jwt app t_v1,
                               delete_call example_config jwt app t_v0])"
proof -
  have flag:
    "(DRY_RUN_from_env env \<longleftrightarrow>
        (case env ''DRY_RUN'' of
           None \<Rightarrow> True
         | Some v \<Rightarrow> lower v = ''true'' \<or> lower v = ''1'' \<or> lower v = ''yes''))
     \<and> DRY_RUN_from_env Map.empty
     \<and> DRY_RUN_from_env [''DRY_RUN'' \<mapsto> ''TRUE'']
     \<and> DRY_RUN_from_env [''DRY_RUN'' \<mapsto> ''Yes'']
     \<and> DRY_RUN_from_env [''DRY_RUN'' \<mapsto> ''1'']
     \<and> \<not> DRY_RUN_from_env [''DRY_RUN'' \<mapsto> ''on'']
     \<and> \<not> DRY_RUN_from_env [''DRY_RUN'' \<mapsto> ''TRUE '']
     \<and> \<not> DRY_RUN_from_env [''DRY_RUN'' \<mapsto> ''false'']
     \<and> \<not> DRY_RUN_from_env [''DRY_RUN'' \<mapsto> '''']"
    by (simp add: DRY_RUN_from_env_def getenv_def lower_def lower_char_def split: option.splits)
  have live:
    "process_repo (example_config\<lparr>DRY_RUN := DRY_RUN_from_env [''DRY_RUN'' \<mapsto> ''on'']\<rparr>)
         example_parse example_world jwt app
       = Some (Inr \<lparr>checked = 5, deleted = 2, kept = 2, errors = 1\<rparr>,
               example_gets @ [delete_call example_config jwt app t_v2,
                               delete_call example_config jwt app t_v1,
                               delete_call example_config jwt app t_v0])"
    by code_simp
  from flag live show ?thesis by blast
qed

section \<open>The retention decision\<close>

text \<open>
  Claim C4. \<open>evaluate_tag\<close> never answers delete for a tag whose name is in
  \<open>EXCLUDE_TAGS\<close>, whatever its rank, its age or even the shape of its timestamp (the
  exclusion test comes first and gives the "excluded tag" reason), nor for a tag whose
  \<open>last_updated\<close> is absent, null or empty.
\<close>

theorem evaluate_tag_keeps_excluded_and_undated:
  "(py_in (dict_get (name t) '''') (EXCLUDE_TAGS cfg) \<longrightarrow>
       evaluate_tag cfg parse now t rank
         = Inr (False, reason_excluded (fstr (dict_get (name t) ''''))))
   \<and> (last_updated t = Absent \<or> last_updated t = Null \<or> last_updated t = Val '''' \<longrightarrow>
       (\<exists>reason. evaluate_tag cfg parse now t rank = Inr (False, reason)))"
  by (auto simp: evaluate_tag_def Let_def)

text \<open>
  The tag \<open>latest\<close> at rank 9999 with a parser that rejects everything, and a tag with no
  timestamp at rank 99.
\<close>

theorem evaluate_tag_keeps_excluded_and_undated_witness:
  "py_in (dict_get (name t_latest) '''') (EXCLUDE_TAGS example_config)
   \<and> evaluate_tag example_config (\<lambda>s. None) example_now t_latest 9999
       = Inr (False, ''excluded tag '' @ quote @ ''latest'' @ quote)
   \<and> last_updated t_undated = Null
   \<and> (\<exists>reason. evaluate_tag example_config example_parse example_now t_undated 99
         = Inr (False, reason))"
proof -
  have a: "py_in (dict_get (name t_latest) '''') (EXCLUDE_TAGS example_config)"
    by (simp add: py_in_def t_latest_def mk_tag_def example_config_def)
  have b: "last_updated t_undated = Null" by (simp add: t_undated_def)
  have n: "fstr (dict_get (name t_latest) '''') = ''latest''"
    by (simp add: t_latest_def mk_tag_def)
  from evaluate_tag_keeps_excluded_and_undated
         [of t_latest example_config "\<lambda>s. None" example_now 9999] a
  have "evaluate_tag example_config (\<lambda>s. None) example_now t_latest 9999
          = Inr (False, ''excluded tag '' @ quote @ ''latest'' @ quote)"
    by (simp add: n reason_excluded_def)
  moreover from evaluate_tag_keeps_excluded_and_undated
         [of t_undated example_config example_parse example_now 99] b
  have "\<exists>reason. evaluate_tag example_config example_parse example_now t_undated 99
          = Inr (False, reason)"
    by simp
  ultimately show ?thesis using a b by simp
qed

text \<open>
  Claim C2. For a tag whose name is not excluded and whose timestamp is present and parses
  to an aware datetime, \<open>evaluate_tag\<close> returns, at every rank, and answers delete if and
  only if \<open>rank \<ge> KEEP_LAST_N\<close> and \<open>age_days \<ge> MIN_AGE_DAYS\<close>. Both bounds are
  inclusive, so the rank equal to \<open>KEEP_LAST_N\<close> is the first eligible one and the age equal
  to \<open>MIN_AGE_DAYS\<close> is eligible.
\<close>

theorem evaluate_tag_delete_iff:
  assumes "\<not> py_in (dict_get (name t) '''') (EXCLUDE_TAGS cfg)"
    and "last_updated t = Val s" and "s \<noteq> []"
    and "parse (replace_Z s) = Some (Aware u)"
  shows "\<exists>reason. evaluate_tag cfg parse now t rank
           = Inr (KEEP_LAST_N cfg \<le> rank \<and> MIN_AGE_DAYS cfg \<le> days_between now u, reason)"
  using assms by (auto simp: evaluate_tag_def Let_def)

lemma example_ages:
  "days_between example_now (19776 * us_per_day) = 7"
  "days_between example_now (19777 * us_per_day) = 6"
  by (simp_all add: days_between_def example_now_def us_per_day_def)

lemma example_parsed:
  "example_parse (replace_Z ''2024-02-23T00:00:00Z'') = Some (Aware (19776 * us_per_day))"
  "example_parse (replace_Z ''2024-02-24T00:00:00Z'') = Some (Aware (19777 * us_per_day))"
  by (simp_all add: example_parse_def midnight_def)

text \<open>
  With \<open>KEEP_LAST_N = 2\<close> and \<open>MIN_AGE_DAYS = 7\<close>: a tag aged exactly 7 days is deleted at
  rank 2 and kept at rank 1, and a tag aged 6 days is kept at rank 2.
\<close>

theorem evaluate_tag_delete_iff_witness:
  "(\<exists>reason. evaluate_tag example_config example_parse example_now t_v2 2 = Inr (True, reason))
   \<and> (\<exists>reason. evaluate_tag example_config example_parse example_now t_v2 1 = Inr (False, reason))
   \<and> (\<exists>reason. evaluate_tag example_config example_parse example_now t_v3 2 = Inr (False, reason))"
proof -
  have n2: "\<not> py_in (dict_get (name t_v2) '''') (EXCLUDE_TAGS example_config)"
    by (simp add: py_in_def t_v2_def mk_tag_def example_config_def)
  have n3: "\<not> py_in (dict_get (name t_v3) '''') (EXCLUDE_TAGS example_config)"
    by (simp add: py_in_def t_v3_def mk_tag_def example_config_def)
  have l2: "last_updated t_v2 = Val ''2024-02-23T00:00:00Z''" by (simp add: t_v2_def mk_tag_def)
  have l3: "last_updated t_v3 = Val ''2024-02-24T00:00:00Z''" by (simp add: t_v3_def mk_tag_def)
  have k: "KEEP_LAST_N example_config = 2" "MIN_AGE_DAYS example_config = 7"
    by (simp_all add: example_config_def)
  have e2: "''2024-02-23T00:00:00Z'' \<noteq> []" and e3: "''2024-02-24T00:00:00Z'' \<noteq> []"
    by simp_all
  from evaluate_tag_delete_iff
         [where parse = example_parse and cfg = example_config and t = t_v2 and now = example_now
            and rank = 2, OF n2 l2 e2 example_parsed(1)]
  have "\<exists>reason. evaluate_tag example_config example_parse example_now t_v2 2 = Inr (True, reason)"
    by (simp add: k example_ages)
  moreover from evaluate_tag_delete_iff
         [where parse = example_parse and cfg = example_config and t = t_v2 and now = example_now
            and rank = 1, OF n2 l2 e2 example_parsed(1)]
  have "\<exists>reason. evaluate_tag example_config example_parse example_now t_v2 1 = Inr (False, reason)"
    by (simp add: k example_ages)
  moreover from evaluate_tag_delete_iff
         [where parse = example_parse and cfg = example_config and t = t_v3 and now = example_now
            and rank = 2, OF n3 l3 e3 example_parsed(2)]
  have "\<exists>reason. evaluate_tag example_config example_parse example_now t_v3 2 = Inr (False, reason)"
    by (simp add: k example_ages)
  ultimately show ?thesis by simp
qed

section \<open>Authentication\<close>

lemma get_token_calls: "snd (get_token w) = [POST login_url]"
  by (simp add: get_token_def login_url_def Let_def split: sum.splits field.splits)

text \<open>
  Claim C1. The claim asks \<open>get_token\<close> to retry a transient failure, sleeping between
  attempts, up to a fixed maximum. The function makes one POST and stops: against a login
  endpoint that answers 503 twice and then hands out a token, it raises the first 503
  after a single attempt, and in no world does it make a second attempt or sleep.
\<close>

theorem get_token_does_not_retry:
  "get_token flaky_login_world = (Inl (HTTPError 503), [POST login_url])
   \<and> (\<forall>w. length (snd (get_token w)) = 1 \<and> SLEEP \<notin> set (snd (get_token w)))"
proof -
  have "get_token flaky_login_world = (Inl (HTTPError 503), [POST login_url])"
    by code_simp
  then show ?thesis by (simp add: get_token_calls)
qed

section \<open>The loop over the tags of a repository\<close>

lemma evaluate_tag_ignores_DRY_RUN:
  "evaluate_tag (cfg\<lparr>DRY_RUN := b\<rparr>) parse now t rank = evaluate_tag cfg parse now t rank"
  by (simp add: evaluate_tag_def reason_delete_def reason_within_def reason_young_def Let_def
          cong: if_cong option.case_cong sum.case_cong)

lemma eligible_ignores_DRY_RUN:
  "eligible (cfg\<lparr>DRY_RUN := b\<rparr>) parse w repo rank ts = eligible cfg parse w repo rank ts"
  by (induction ts arbitrary: rank) (simp_all add: decides_delete_def evaluate_tag_ignores_DRY_RUN)

text \<open>One step of the loop, by the outcome of \<open>evaluate_tag\<close>.\<close>

lemma process_tags_raise:
  "evaluate_tag cfg parse (clock w repo rank) t (int rank) = Inl e \<Longrightarrow>
   process_tags cfg parse w token repo rank (t # ts) st calls = (Inl e, calls)"
  by simp

lemma process_tags_keep:
  "evaluate_tag cfg parse (clock w repo rank) t (int rank) = Inr (False, reason) \<Longrightarrow>
   process_tags cfg parse w token repo rank (t # ts) st calls
     = process_tags cfg parse w token repo (Suc rank) ts (st\<lparr>kept := kept st + 1\<rparr>) calls"
  by simp

lemma process_tags_dry:
  "evaluate_tag cfg parse (clock w repo rank) t (int rank) = Inr (True, reason) \<Longrightarrow>
   DRY_RUN cfg \<Longrightarrow>
   process_tags cfg parse w token repo rank (t # ts) st calls
     = process_tags cfg parse w token repo (Suc rank) ts (st\<lparr>deleted := deleted st + 1\<rparr>) calls"
  by simp

lemma process_tags_live:
  "evaluate_tag cfg parse (clock w repo rank) t (int rank) = Inr (True, reason) \<Longrightarrow>
   \<not> DRY_RUN cfg \<Longrightarrow>
   process_tags cfg parse w token repo rank (t # ts) st calls =
     (case delete_answer w cfg repo t of
        Inl e \<Rightarrow> (Inl e, calls @ [delete_call cfg token repo t])
      | Inr status \<Rightarrow>
          process_tags cfg parse w token repo (Suc rank) ts
            (if status = 204 then st\<lparr>deleted := deleted st + 1\<rparr>
             else st\<lparr>errors := errors st + 1\<rparr>)
            (calls @ [delete_call cfg token repo t]))"
  by (simp add: delete_tag_def delete_answer_def delete_call_def Let_def split: sum.splits)

lemma evaluate_tag_cases:
  obtains (raise) e where "evaluate_tag cfg parse now t rank = Inl e"
  | (keep) reason where "evaluate_tag cfg parse now t rank = Inr (False, reason)"
  | (delete) reason where "evaluate_tag cfg parse now t rank = Inr (True, reason)"
proof (cases "evaluate_tag cfg parse now t rank")
  case (Inl e)
  then show ?thesis by (rule raise)
next
  case (Inr p)
  then show ?thesis by (cases p; cases "fst p") (auto intro: keep delete)
qed

lemma process_tags_dry_calls:
  "DRY_RUN cfg \<Longrightarrow> snd (process_tags cfg parse w token repo rank ts st calls) = calls"
proof (induction ts arbitrary: rank st)
  case Nil
  show ?case by simp
next
  case (Cons t ts)
  show ?case
  proof (cases rule: evaluate_tag_cases [of cfg parse "clock w repo rank" t "int rank"])
    case (raise e)
    then show ?thesis by (simp only: process_tags_raise snd_conv)
  next
    case (keep reason)
    then show ?thesis by (simp only: process_tags_keep Cons.IH [OF Cons.prems])
  next
    case (delete reason)
    then show ?thesis by (simp only: process_tags_dry [OF _ Cons.prems] Cons.IH [OF Cons.prems])
  qed
qed

lemma process_tags_partition:
  "process_tags cfg parse w token repo rank ts st calls = (Inr st', calls') \<Longrightarrow>
   checked st' = checked st \<and>
   deleted st' + kept st' + errors st' = deleted st + kept st + errors st + int (length ts)"
proof (induction ts arbitrary: rank st calls)
  case Nil
  then show ?case by simp
next
  case (Cons t ts)
  let ?lhs = "process_tags cfg parse w token repo rank (t # ts) st calls"
  let ?dc = "delete_call cfg token repo t"
  show ?case
  proof (cases rule: evaluate_tag_cases [of cfg parse "clock w repo rank" t "int rank"])
    case (raise e)
    then have "?lhs = (Inl e, calls)" by (rule process_tags_raise)
    with Cons.prems show ?thesis by simp
  next
    case (keep reason)
    then have "?lhs = process_tags cfg parse w token repo (Suc rank) ts
                        (st\<lparr>kept := kept st + 1\<rparr>) calls"
      by (rule process_tags_keep)
    with Cons.prems Cons.IH [of "Suc rank" "st\<lparr>kept := kept st + 1\<rparr>" calls]
    show ?thesis by simp
  next
    case (delete reason)
    show ?thesis
    proof (cases "DRY_RUN cfg")
      case True
      with delete have "?lhs = process_tags cfg parse w token repo (Suc rank) ts
                          (st\<lparr>deleted := deleted st + 1\<rparr>) calls"
        by (rule process_tags_dry)
      with Cons.prems Cons.IH [of "Suc rank" "st\<lparr>deleted := deleted st + 1\<rparr>" calls]
      show ?thesis by simp
    next
      case False
      note step = process_tags_live [OF delete False, where token = token and ts = ts and st = st
                                       and calls = calls]
      show ?thesis
      proof (cases "delete_answer w cfg repo t")
        case (Inl e)
        with step have "?lhs = (Inl e, calls @ [?dc])" by simp
        with Cons.prems show ?thesis by simp
      next
        case (Inr status)
        show ?thesis
        proof (cases "status = 204")
          case True
          with step Inr have "?lhs = process_tags cfg parse w token repo (Suc rank) ts
                          (st\<lparr>deleted := deleted st + 1\<rparr>) (calls @ [?dc])"
            by simp
          with Cons.prems
            Cons.IH [of "Suc rank" "st\<lparr>deleted := deleted st + 1\<rparr>" "calls @ [?dc]"]
          show ?thesis by simp
        next
          case False
          with step Inr have "?lhs = process_tags cfg parse w token repo (Suc rank) ts
                          (st\<lparr>errors := errors st + 1\<rparr>) (calls @ [?dc])"
            by simp
          with Cons.prems
            Cons.IH [of "Suc rank" "st\<lparr>errors := errors st + 1\<rparr>" "calls @ [?dc]"]
          show ?thesis by simp
        qed
      qed
    qed
  qed
qed


lemma decides_delete_iff:
  "decides_delete cfg parse w repo rank t
     \<longleftrightarrow> (\<exists>reason. evaluate_tag cfg parse (clock w repo rank) t (int rank) = Inr (True, reason))"
  by (auto simp: decides_delete_def split: sum.splits)

lemma evaluates_iff:
  "evaluates cfg parse w repo rank t
     \<longleftrightarrow> (\<forall>e. evaluate_tag cfg parse (clock w repo rank) t (int rank) \<noteq> Inl e)"
  by (auto simp: evaluates_def split: sum.splits)

lemma process_tags_dry_count:
  "DRY_RUN cfg \<Longrightarrow> all_evaluate cfg parse w repo rank ts \<Longrightarrow>
   \<exists>st'. process_tags cfg parse w token repo rank ts st calls = (Inr st', calls)
     \<and> checked st' = checked st
     \<and> deleted st' = deleted st + int (length (eligible cfg parse w repo rank ts))
     \<and> kept st' = kept st + int (length ts) - int (length (eligible cfg parse w repo rank ts))
     \<and> errors st' = errors st"
proof (induction ts arbitrary: rank st)
  case Nil
  show ?case by simp
next
  case (Cons t ts)
  from Cons.prems(2) have ev: "evaluates cfg parse w repo rank t"
    and rest: "all_evaluate cfg parse w repo (Suc rank) ts" by simp_all
  let ?lhs = "process_tags cfg parse w token repo rank (t # ts) st calls"
  show ?case
  proof (cases rule: evaluate_tag_cases [of cfg parse "clock w repo rank" t "int rank"])
    case (raise e)
    with ev show ?thesis by (simp add: evaluates_iff)
  next
    case (keep reason)
    then have step: "?lhs = process_tags cfg parse w token repo (Suc rank) ts
                        (st\<lparr>kept := kept st + 1\<rparr>) calls"
      by (rule process_tags_keep)
    from keep have el: "eligible cfg parse w repo rank (t # ts)
                          = eligible cfg parse w repo (Suc rank) ts"
      by (simp add: decides_delete_iff)
    from Cons.IH [OF Cons.prems(1) rest, of "st\<lparr>kept := kept st + 1\<rparr>"]
    show ?thesis unfolding step el by auto
  next
    case (delete reason)
    from delete Cons.prems(1) have step: "?lhs = process_tags cfg parse w token repo (Suc rank) ts
                        (st\<lparr>deleted := deleted st + 1\<rparr>) calls"
      by (rule process_tags_dry)
    from delete have el: "eligible cfg parse w repo rank (t # ts)
                          = t # eligible cfg parse w repo (Suc rank) ts"
      by (simp add: decides_delete_iff)
    from Cons.IH [OF Cons.prems(1) rest, of "st\<lparr>deleted := deleted st + 1\<rparr>"]
    show ?thesis unfolding step el by auto
  qed
qed

lemma process_tags_live_count:
  "\<not> DRY_RUN cfg \<Longrightarrow> all_evaluate cfg parse w repo rank ts \<Longrightarrow>
   \<forall>t \<in> set (eligible cfg parse w repo rank ts). answered w cfg repo t \<Longrightarrow>
   \<exists>st'. process_tags cfg parse w token repo rank ts st calls
            = (Inr st', calls @ map (delete_call cfg token repo) (eligible cfg parse w repo rank ts))
     \<and> checked st' = checked st
     \<and> deleted st' = deleted st
          + int (length (filter (confirmed w cfg repo) (eligible cfg parse w repo rank ts)))
     \<and> errors st' = errors st
          + int (length (filter (\<lambda>t. \<not> confirmed w cfg repo t) (eligible cfg parse w repo rank ts)))
     \<and> kept st' = kept st + int (length ts) - int (length (eligible cfg parse w repo rank ts))"
proof (induction ts arbitrary: rank st calls)
  case Nil
  show ?case by simp
next
  case (Cons t ts)
  from Cons.prems(2) have ev: "evaluates cfg parse w repo rank t"
    and rest: "all_evaluate cfg parse w repo (Suc rank) ts" by simp_all
  let ?lhs = "process_tags cfg parse w token repo rank (t # ts) st calls"
  let ?dc = "delete_call cfg token repo t"
  show ?case
  proof (cases rule: evaluate_tag_cases [of cfg parse "clock w repo rank" t "int rank"])
    case (raise e)
    with ev show ?thesis by (simp add: evaluates_iff)
  next
    case (keep reason)
    then have step: "?lhs = process_tags cfg parse w token repo (Suc rank) ts
                        (st\<lparr>kept := kept st + 1\<rparr>) calls"
      by (rule process_tags_keep)
    from keep have el: "eligible cfg parse w repo rank (t # ts)
                          = eligible cfg parse w repo (Suc rank) ts"
      by (simp add: decides_delete_iff)
    from Cons.prems(3) have ans: "\<forall>x \<in> set (eligible cfg parse w repo (Suc rank) ts).
                                    answered w cfg repo x"
      unfolding el .
    from Cons.IH [OF Cons.prems(1) rest ans, of "st\<lparr>kept := kept st + 1\<rparr>" calls]
    show ?thesis unfolding step el by auto
  next
    case (delete reason)
    note step = process_tags_live [OF delete Cons.prems(1), where token = token and ts = ts
                                     and st = st and calls = calls]
    from delete have el: "eligible cfg parse w repo rank (t # ts)
                          = t # eligible cfg parse w repo (Suc rank) ts"
      by (simp add: decides_delete_iff)
    from Cons.prems(3) have a: "answered w cfg repo t"
      and ans: "\<forall>x \<in> set (eligible cfg parse w repo (Suc rank) ts). answered w cfg repo x"
      unfolding el by simp_all
    from a obtain status where st: "delete_answer w cfg repo t = Inr status"
      by (auto simp: answered_def split: sum.splits)
    show ?thesis
    proof (cases "status = 204")
      case True
      with step st have s2: "?lhs = process_tags cfg parse w token repo (Suc rank) ts
                          (st\<lparr>deleted := deleted st + 1\<rparr>) (calls @ [?dc])"
        by simp
      from True st have c: "confirmed w cfg repo t" by (simp add: confirmed_def)
      from Cons.IH [OF Cons.prems(1) rest ans, of "st\<lparr>deleted := deleted st + 1\<rparr>"
                      "calls @ [?dc]"]
      show ?thesis unfolding s2 el using c by auto
    next
      case False
      with step st have s2: "?lhs = process_tags cfg parse w token repo (Suc rank) ts
                          (st\<lparr>errors := errors st + 1\<rparr>) (calls @ [?dc])"
        by simp
      from False st have c: "\<not> confirmed w cfg repo t" by (simp add: confirmed_def)
      from Cons.IH [OF Cons.prems(1) rest ans, of "st\<lparr>errors := errors st + 1\<rparr>"
                      "calls @ [?dc]"]
      show ?thesis unfolding s2 el using c by auto
    qed
  qed
qed

lemma process_tags_live_prefix:
  "\<not> DRY_RUN cfg \<Longrightarrow> all_evaluate cfg parse w repo rank pre \<Longrightarrow>
   \<forall>t \<in> set (eligible cfg parse w repo rank pre). answered w cfg repo t \<Longrightarrow>
   \<exists>st'. process_tags cfg parse w token repo rank (pre @ rest) st calls
            = process_tags cfg parse w token repo (rank + length pre) rest st'
                (calls @ map (delete_call cfg token repo) (eligible cfg parse w repo rank pre))"
proof (induction pre arbitrary: rank st calls)
  case Nil
  show ?case by (rule exI [of _ st]) simp
next
  case (Cons t pre)
  from Cons.prems(2) have ev: "evaluates cfg parse w repo rank t"
    and more: "all_evaluate cfg parse w repo (Suc rank) pre" by simp_all
  let ?lhs = "process_tags cfg parse w token repo rank ((t # pre) @ rest) st calls"
  let ?dc = "delete_call cfg token repo t"
  show ?case
  proof (cases rule: evaluate_tag_cases [of cfg parse "clock w repo rank" t "int rank"])
    case (raise e)
    with ev show ?thesis by (simp add: evaluates_iff)
  next
    case (keep reason)
    then have step: "?lhs = process_tags cfg parse w token repo (Suc rank) (pre @ rest)
                        (st\<lparr>kept := kept st + 1\<rparr>) calls"
      using process_tags_keep [of cfg parse w repo rank t reason token "pre @ rest" st calls]
      by simp
    from keep have el: "eligible cfg parse w repo rank (t # pre)
                          = eligible cfg parse w repo (Suc rank) pre"
      by (simp add: decides_delete_iff)
    from Cons.prems(3) have ans: "\<forall>x \<in> set (eligible cfg parse w repo (Suc rank) pre).
                                    answered w cfg repo x"
      unfolding el .
    from Cons.IH [OF Cons.prems(1) more ans, of "st\<lparr>kept := kept st + 1\<rparr>" calls]
    show ?thesis unfolding step el by simp
  next
    case (delete reason)
    have step: "?lhs =
       (case delete_answer w cfg repo t of
          Inl e \<Rightarrow> (Inl e, calls @ [?dc])
        | Inr status \<Rightarrow>
            process_tags cfg parse w token repo (Suc rank) (pre @ rest)
              (if status = 204 then st\<lparr>deleted := deleted st + 1\<rparr>
               else st\<lparr>errors := errors st + 1\<rparr>)
              (calls @ [?dc]))"
      using process_tags_live [OF delete Cons.prems(1), where token = token
                                 and ts = "pre @ rest" and st = st and calls = calls]
      by simp
    from delete have el: "eligible cfg parse w repo rank (t # pre)
                          = t # eligible cfg parse w repo (Suc rank) pre"
      by (simp add: decides_delete_iff)
    from Cons.prems(3) have a: "answered w cfg repo t"
      and ans: "\<forall>x \<in> set (eligible cfg parse w repo (Suc rank) pre). answered w cfg repo x"
      unfolding el by simp_all
    from a obtain status where sa: "delete_answer w cfg repo t = Inr status"
      by (auto simp: answered_def split: sum.splits)
    let ?st1 = "if status = 204 then st\<lparr>deleted := deleted st + 1\<rparr>
                else st\<lparr>errors := errors st + 1\<rparr>"
    from step sa have s2: "?lhs = process_tags cfg parse w token repo (Suc rank) (pre @ rest)
                             ?st1 (calls @ [?dc])"
      by simp
    from Cons.IH [OF Cons.prems(1) more ans, of ?st1 "calls @ [?dc]"]
    show ?thesis unfolding s2 el by simp
  qed
qed

section \<open>Processing one repository\<close>

lemma no_delete_in_gets: "filter is_delete (gets token pages) = []"
  by (induction pages) (simp_all add: gets_def is_delete_def)

lemma paginate_no_delete:
  assumes "paginate w url token = Some (r, calls)"
  shows "filter is_delete calls = []"
proof -
  from assms have "explained w token (Some url) [] [] (r, calls)"
    unfolding paginate_def by (rule paginate_loop_explained)
  then show ?thesis
    by (cases r) (auto simp: explained_def no_delete_in_gets is_delete_def)
qed

lemma get_tags_no_delete:
  assumes "get_tags w cfg token repo = Some (r, calls)"
  shows "filter is_delete calls = []"
  using assms paginate_no_delete [of w "tags_url cfg repo" token]
  by (auto simp: get_tags_def split: option.splits sum.splits prod.splits)

lemma get_tags_ignores_DRY_RUN:
  "get_tags w (cfg\<lparr>DRY_RUN := b\<rparr>) token repo = get_tags w cfg token repo"
  by (simp add: get_tags_def tags_url_def)

lemma delete_ignores_DRY_RUN:
  "delete_call (cfg\<lparr>DRY_RUN := b\<rparr>) token repo t = delete_call cfg token repo t"
  "answered w (cfg\<lparr>DRY_RUN := b\<rparr>) repo t = answered w cfg repo t"
  "confirmed w (cfg\<lparr>DRY_RUN := b\<rparr>) repo t = confirmed w cfg repo t"
  by (simp_all add: delete_call_def answered_def confirmed_def delete_answer_def delete_url_def)

lemma all_evaluate_ignores_DRY_RUN:
  "all_evaluate (cfg\<lparr>DRY_RUN := b\<rparr>) parse w repo rank ts = all_evaluate cfg parse w repo rank ts"
  by (induction ts arbitrary: rank) (simp_all add: evaluates_def evaluate_tag_ignores_DRY_RUN)

lemma only_deletes: "filter is_delete (map (delete_call cfg token repo) ts) = map (delete_call cfg token repo) ts"
  by (induction ts) (simp_all add: is_delete_def delete_call_def)

lemma process_repo_unfold:
  "get_tags w cfg token repo = Some (Inr tags, c) \<Longrightarrow>
   process_repo cfg parse w token repo
     = Some (process_tags cfg parse w token repo 0 tags
               \<lparr>checked = int (length tags), deleted = 0, kept = 0, errors = 0\<rparr> c)"
  by (simp add: process_repo_def)

lemma process_repo_cases:
  assumes "process_repo cfg parse w token repo = Some (res, calls)"
  obtains (listing) e where "get_tags w cfg token repo = Some (Inl e, calls)" and "res = Inl e"
  | (loop) tags c where "get_tags w cfg token repo = Some (Inr tags, c)"
      and "process_tags cfg parse w token repo 0 tags
             \<lparr>checked = int (length tags), deleted = 0, kept = 0, errors = 0\<rparr> c = (res, calls)"
  using assms by (auto simp: process_repo_def split: option.splits sum.splits prod.splits)

lemma example_listing:
  "get_tags example_world example_config jwt app = Some (Inr example_tags, example_gets)"
  "get_tags example_world live_config jwt app = Some (Inr example_tags, example_gets)"
  "get_tags dropping_world live_config jwt app = Some (Inr example_tags, example_gets)"
  by code_simp+

lemma example_evaluates:
  "all_evaluate example_config example_parse example_world app 0 example_tags"
  "all_evaluate live_config example_parse example_world app 0 example_tags"
  "all_evaluate live_config example_parse dropping_world app 0 example_tags"
  by code_simp+

lemma example_eligible:
  "eligible example_config example_parse example_world app 0 example_tags = [t_v2, t_v1, t_v0]"
  "eligible live_config example_parse example_world app 0 example_tags = [t_v2, t_v1, t_v0]"
  "eligible live_config example_parse dropping_world app 0 example_tags = [t_v2, t_v1, t_v0]"
  by code_simp+

lemma example_answers:
  "delete_answer example_world live_config app t_v2 = Inr 204"
  "delete_answer example_world live_config app t_v1 = Inr 500"
  "delete_answer example_world live_config app t_v0 = Inr 204"
  "delete_answer dropping_world live_config app t_v2 = Inl ConnectionError"
  by code_simp+

text \<open>
  Claim C5. In dry-run mode \<open>process_repo\<close> issues no DELETE, whatever its outcome, and
  when the listing is fetched and every tag evaluates, it returns with \<open>deleted\<close> equal to
  the number of tags that satisfy the delete predicate. That is also the number of DELETE
  requests the same run makes in live mode when every request is answered, so the preview
  matches what live mode attempts.
\<close>

theorem dry_run_counts_without_deleting:
  assumes "DRY_RUN cfg"
  shows
  "(\<forall>res calls. process_repo cfg parse w token repo = Some (res, calls) \<longrightarrow>
       filter is_delete calls = [])
   \<and> (\<forall>tags c. get_tags w cfg token repo = Some (Inr tags, c)
                 \<and> all_evaluate cfg parse w repo 0 tags \<longrightarrow>
       (\<exists>st. process_repo cfg parse w token repo = Some (Inr st, c)
          \<and> deleted st = int (length (eligible cfg parse w repo 0 tags))
          \<and> (\<forall>res calls.
                (\<forall>t \<in> set (eligible cfg parse w repo 0 tags). answered w cfg repo t)
                \<and> process_repo (cfg\<lparr>DRY_RUN := False\<rparr>) parse w token repo = Some (res, calls)
                \<longrightarrow> int (length (filter is_delete calls)) = deleted st)))"
proof (intro conjI allI impI)
  fix res calls
  assume "process_repo cfg parse w token repo = Some (res, calls)"
  then show "filter is_delete calls = []"
  proof (cases rule: process_repo_cases)
    case (listing e)
    then show ?thesis by (auto dest: get_tags_no_delete)
  next
    case (loop tags c)
    from loop(2) process_tags_dry_calls [OF assms, of parse w token repo 0 tags _ c]
    have "calls = c" by (metis snd_conv)
    with loop(1) show ?thesis by (auto dest: get_tags_no_delete)
  qed
next
  fix tags c
  assume h: "get_tags w cfg token repo = Some (Inr tags, c) \<and> all_evaluate cfg parse w repo 0 tags"
  let ?E = "eligible cfg parse w repo 0 tags"
  let ?init = "\<lparr>checked = int (length tags), deleted = 0, kept = 0, errors = 0\<rparr>"
  let ?live = "cfg\<lparr>DRY_RUN := False\<rparr>"
  from h have g: "get_tags w cfg token repo = Some (Inr tags, c)"
    and ev: "all_evaluate cfg parse w repo 0 tags" by simp_all
  from process_tags_dry_count [OF assms ev, of token ?init c]
  obtain st where r: "process_tags cfg parse w token repo 0 tags ?init c = (Inr st, c)"
    and d: "deleted st = int (length ?E)" by auto
  have p: "process_repo cfg parse w token repo = Some (Inr st, c)"
    using process_repo_unfold [OF g, of parse] r by simp
  have l: "\<forall>res calls. (\<forall>t \<in> set ?E. answered w cfg repo t)
             \<and> process_repo ?live parse w token repo = Some (res, calls)
             \<longrightarrow> int (length (filter is_delete calls)) = deleted st"
  proof (intro allI impI)
    fix res calls
    assume a: "(\<forall>t \<in> set ?E. answered w cfg repo t)
               \<and> process_repo ?live parse w token repo = Some (res, calls)"
    have nl: "\<not> DRY_RUN ?live" by simp
    have gl: "get_tags w ?live token repo = Some (Inr tags, c)"
      using g by (simp add: get_tags_ignores_DRY_RUN)
    have evl: "all_evaluate ?live parse w repo 0 tags"
      using ev by (simp add: all_evaluate_ignores_DRY_RUN)
    have ansl: "\<forall>t \<in> set (eligible ?live parse w repo 0 tags). answered w ?live repo t"
      using a by (simp add: eligible_ignores_DRY_RUN delete_ignores_DRY_RUN)
    from process_tags_live_count [OF nl evl ansl, of token ?init c]
    have "snd (process_tags ?live parse w token repo 0 tags ?init c)
            = c @ map (delete_call cfg token repo) ?E"
      by (auto simp: eligible_ignores_DRY_RUN delete_ignores_DRY_RUN)
    with a process_repo_unfold [OF gl, of parse]
    have "calls = c @ map (delete_call cfg token repo) ?E" by (metis option.inject snd_conv)
    then show "int (length (filter is_delete calls)) = deleted st"
      using get_tags_no_delete [OF g] d by (simp add: only_deletes)
  qed
  from p d l
  show "\<exists>st. process_repo cfg parse w token repo = Some (Inr st, c)
          \<and> deleted st = int (length ?E)
          \<and> (\<forall>res calls.
                (\<forall>t \<in> set ?E. answered w cfg repo t)
                \<and> process_repo ?live parse w token repo = Some (res, calls)
                \<longrightarrow> int (length (filter is_delete calls)) = deleted st)"
    by blast
qed

text \<open>The example repository in dry-run mode: three of its five tags are eligible.\<close>

theorem dry_run_counts_without_deleting_witness:
  "DRY_RUN example_config
   \<and> get_tags example_world example_config jwt app = Some (Inr example_tags, example_gets)
   \<and> all_evaluate example_config example_parse example_world app 0 example_tags
   \<and> (\<exists>st. process_repo example_config example_parse example_world jwt app
                = Some (Inr st, example_gets) \<and> deleted st = 3)
   \<and> filter is_delete example_gets = []"
proof -
  have d: "DRY_RUN example_config" by (simp add: example_config_def)
  note th = dry_run_counts_without_deleting
              [OF d, of example_parse example_world jwt app]
  from th [THEN conjunct2, rule_format, of example_tags example_gets]
    example_listing(1) example_evaluates(1)
  obtain st where p: "process_repo example_config example_parse example_world jwt app
                        = Some (Inr st, example_gets)"
    and n: "deleted st = int (length (eligible example_config example_parse example_world app 0
                                        example_tags))"
    by blast
  from n have "deleted st = 3" by (simp add: example_eligible)
  moreover from th [THEN conjunct1, rule_format, OF p]
  have "filter is_delete example_gets = []" .
  ultimately show ?thesis using d p example_listing(1) example_evaluates(1) by blast
qed

text \<open>
  Claim C6, as the code has it. In live mode, once the listing is fetched: if every tag
  evaluates and every DELETE request is answered, \<open>process_repo\<close> returns after exactly
  one DELETE per eligible tag, in rank order; \<open>deleted\<close> counts the requests answered 204,
  \<open>errors\<close> the requests answered otherwise, \<open>kept\<close> the tags that are not eligible, and an
  answer other than 204 stops nothing. The loop ends at the first tag whose DELETE request
  raises, or on which \<open>evaluate_tag\<close> raises: neither exception is caught, it leaves
  \<open>process_repo\<close> after one DELETE per eligible tag before that point (the raising request
  included), and the tags behind it are not processed.
\<close>

theorem live_run_deletes_eligible_tags_in_rank_order:
  assumes "\<not> DRY_RUN cfg"
    and "get_tags w cfg token repo = Some (Inr tags, c)"
  shows
  "(all_evaluate cfg parse w repo 0 tags
    \<and> (\<forall>t \<in> set (eligible cfg parse w repo 0 tags). answered w cfg repo t) \<longrightarrow>
      (\<exists>st. process_repo cfg parse w token repo
               = Some (Inr st, c @ map (delete_call cfg token repo)
                                     (eligible cfg parse w repo 0 tags))
         \<and> checked st = int (length tags)
         \<and> deleted st
             = int (length (filter (confirmed w cfg repo) (eligible cfg parse w repo 0 tags)))
         \<and> errors st
             = int (length (filter (\<lambda>t. \<not> confirmed w cfg repo t)
                              (eligible cfg parse w repo 0 tags)))
         \<and> kept st = int (length tags) - int (length (eligible cfg parse w repo 0 tags))))
   \<and> (\<forall>pre t post e.
         tags = pre @ t # post
         \<and> all_evaluate cfg parse w repo 0 pre
         \<and> (\<forall>x \<in> set (eligible cfg parse w repo 0 pre). answered w cfg repo x)
         \<and> decides_delete cfg parse w repo (length pre) t
         \<and> delete_answer w cfg repo t = Inl e \<longrightarrow>
         process_repo cfg parse w token repo
           = Some (Inl e, c @ map (delete_call cfg token repo)
                                (eligible cfg parse w repo 0 pre @ [t])))
   \<and> (\<forall>pre t post e.
         tags = pre @ t # post
         \<and> all_evaluate cfg parse w repo 0 pre
         \<and> (\<forall>x \<in> set (eligible cfg parse w repo 0 pre). answered w cfg repo x)
         \<and> evaluate_tag cfg parse (clock w repo (length pre)) t (int (length pre)) = Inl e \<longrightarrow>
         process_repo cfg parse w token repo
           = Some (Inl e, c @ map (delete_call cfg token repo)
                                (eligible cfg parse w repo 0 pre)))"
proof (intro conjI allI impI)
  let ?init = "\<lparr>checked = int (length tags), deleted = 0, kept = 0, errors = 0\<rparr>"
  assume h: "all_evaluate cfg parse w repo 0 tags
    \<and> (\<forall>t \<in> set (eligible cfg parse w repo 0 tags). answered w cfg repo t)"
  then have ev: "all_evaluate cfg parse w repo 0 tags"
    and ans: "\<forall>t \<in> set (eligible cfg parse w repo 0 tags). answered w cfg repo t"
    by simp_all
  from process_tags_live_count [OF assms(1) ev ans, of token ?init c]
  show "\<exists>st. process_repo cfg parse w token repo
               = Some (Inr st, c @ map (delete_call cfg token repo)
                                     (eligible cfg parse w repo 0 tags))
         \<and> checked st = int (length tags)
         \<and> deleted st
             = int (length (filter (confirmed w cfg repo) (eligible cfg parse w repo 0 tags)))
         \<and> errors st
             = int (length (filter (\<lambda>t. \<not> confirmed w cfg repo t)
                              (eligible cfg parse w repo 0 tags)))
         \<and> kept st = int (length tags) - int (length (eligible cfg parse w repo 0 tags))"
    unfolding process_repo_unfold [OF assms(2)] by auto
next
  fix pre t post e
  let ?init = "\<lparr>checked = int (length tags), deleted = 0, kept = 0, errors = 0\<rparr>"
  let ?E = "eligible cfg parse w repo 0 pre"
  assume h: "tags = pre @ t # post
         \<and> all_evaluate cfg parse w repo 0 pre
         \<and> (\<forall>x \<in> set (eligible cfg parse w repo 0 pre). answered w cfg repo x)
         \<and> decides_delete cfg parse w repo (length pre) t
         \<and> delete_answer w cfg repo t = Inl e"
  then have tg: "tags = pre @ t # post" and ev: "all_evaluate cfg parse w repo 0 pre"
    and ans: "\<forall>x \<in> set ?E. answered w cfg repo x"
    and dd: "decides_delete cfg parse w repo (length pre) t"
    and dr: "delete_answer w cfg repo t = Inl e" by simp_all
  from process_tags_live_prefix [OF assms(1) ev ans, of token "t # post" ?init c]
  obtain st' where
    p: "process_tags cfg parse w token repo 0 (pre @ t # post) ?init c
          = process_tags cfg parse w token repo (length pre) (t # post) st'
              (c @ map (delete_call cfg token repo) ?E)"
    by auto
  from dd obtain reason where
    "evaluate_tag cfg parse (clock w repo (length pre)) t (int (length pre)) = Inr (True, reason)"
    by (auto simp: decides_delete_iff)
  from process_tags_live [OF this assms(1), where token = token and ts = post and st = st'
                            and calls = "c @ map (delete_call cfg token repo) ?E"] dr
  have "process_tags cfg parse w token repo (length pre) (t # post) st'
          (c @ map (delete_call cfg token repo) ?E)
        = (Inl e, c @ map (delete_call cfg token repo) (?E @ [t]))"
    by simp
  with p show "process_repo cfg parse w token repo
           = Some (Inl e, c @ map (delete_call cfg token repo) (?E @ [t]))"
    unfolding process_repo_unfold [OF assms(2)] tg by simp
next
  fix pre t post e
  let ?init = "\<lparr>checked = int (length tags), deleted = 0, kept = 0, errors = 0\<rparr>"
  let ?E = "eligible cfg parse w repo 0 pre"
  assume h: "tags = pre @ t # post
         \<and> all_evaluate cfg parse w repo 0 pre
         \<and> (\<forall>x \<in> set (eligible cfg parse w repo 0 pre). answered w cfg repo x)
         \<and> evaluate_tag cfg parse (clock w repo (length pre)) t (int (length pre)) = Inl e"
  then have tg: "tags = pre @ t # post" and ev: "all_evaluate cfg parse w repo 0 pre"
    and ans: "\<forall>x \<in> set ?E. answered w cfg repo x"
    and r: "evaluate_tag cfg parse (clock w repo (length pre)) t (int (length pre)) = Inl e"
    by simp_all
  from process_tags_live_prefix [OF assms(1) ev ans, of token "t # post" ?init c]
  obtain st' where
    p: "process_tags cfg parse w token repo 0 (pre @ t # post) ?init c
          = process_tags cfg parse w token repo (length pre) (t # post) st'
              (c @ map (delete_call cfg token repo) ?E)"
    by auto
  from r have "process_tags cfg parse w token repo (length pre) (t # post) st'
          (c @ map (delete_call cfg token repo) ?E)
        = (Inl e, c @ map (delete_call cfg token repo) ?E)"
    by (rule process_tags_raise)
  with p show "process_repo cfg parse w token repo
           = Some (Inl e, c @ map (delete_call cfg token repo) ?E)"
    unfolding process_repo_unfold [OF assms(2)] tg by simp
qed

lemma garbled_listing:
  "get_tags garbled_world live_config jwt app
     = Some (Inr ([t_latest, t_v3, t_v2] @ t_garbled # [t_v0]), example_gets)"
  "get_tags dropping_world live_config jwt app
     = Some (Inr ([t_latest, t_v3] @ t_v2 # [t_v1, t_v0]), example_gets)"
  by code_simp+

lemma garbled_prefix:
  "all_evaluate live_config example_parse garbled_world app 0 [t_latest, t_v3, t_v2]"
  "eligible live_config example_parse garbled_world app 0 [t_latest, t_v3, t_v2] = [t_v2]"
  "answered garbled_world live_config app t_v2"
  "evaluate_tag live_config example_parse (clock garbled_world app (length [t_latest, t_v3, t_v2]))
     t_garbled (int (length [t_latest, t_v3, t_v2])) = Inl ValueError"
  "all_evaluate live_config example_parse dropping_world app 0 [t_latest, t_v3]"
  "eligible live_config example_parse dropping_world app 0 [t_latest, t_v3] = []"
  "decides_delete live_config example_parse dropping_world app (length [t_latest, t_v3]) t_v2"
  by code_simp+

text \<open>
  The example repository in live mode: \<open>v2\<close> and \<open>v0\<close> are deleted, the DELETE of \<open>v1\<close> is
  answered 500 and counted. Where the connection drops on \<open>v2\<close>, the run ends there; and
  where the timestamp of \<open>v1\<close> does not parse, the run ends after the DELETE of \<open>v2\<close>.
\<close>

theorem live_run_deletes_eligible_tags_in_rank_order_witness:
  "\<not> DRY_RUN live_config
   \<and> get_tags example_world live_config jwt app = Some (Inr example_tags, example_gets)
   \<and> all_evaluate live_config example_parse example_world app 0 example_tags
   \<and> (\<exists>st. process_repo live_config example_parse example_world jwt app
               = Some (Inr st, example_gets @ [delete_call live_config jwt app t_v2,
                                               delete_call live_config jwt app t_v1,
                                               delete_call live_config jwt app t_v0])
         \<and> checked st = 5 \<and> deleted st = 2 \<and> errors st = 1 \<and> kept st = 2)
   \<and> process_repo live_config example_parse dropping_world jwt app
       = Some (Inl ConnectionError, example_gets @ [delete_call live_config jwt app t_v2])
   \<and> process_repo live_config example_parse garbled_world jwt app
       = Some (Inl ValueError, example_gets @ [delete_call live_config jwt app t_v2])"
proof -
  have d: "\<not> DRY_RUN live_config" by (simp add: live_config_def example_config_def)
  note th1 = live_run_deletes_eligible_tags_in_rank_order
               [OF d example_listing(2), of example_parse]
  note th2 = live_run_deletes_eligible_tags_in_rank_order
               [OF d garbled_listing(2), of example_parse]
  note th3 = live_run_deletes_eligible_tags_in_rank_order
               [OF d garbled_listing(1), of example_parse]
  have a0: "\<forall>t \<in> set (eligible live_config example_parse example_world app 0 example_tags).
             answered example_world live_config app t"
    by (simp add: example_eligible answered_def example_answers)
  from example_evaluates(2) a0
  have a: "all_evaluate live_config example_parse example_world app 0 example_tags
           \<and> (\<forall>t \<in> set (eligible live_config example_parse example_world app 0 example_tags).
                 answered example_world live_config app t)"
    by blast
  have c: "confirmed example_world live_config app t_v2"
          "\<not> confirmed example_world live_config app t_v1"
          "confirmed example_world live_config app t_v0"
    by (simp_all add: confirmed_def example_answers)
  have l: "length example_tags = 5" by (simp add: example_tags_def)
  from th1 [THEN conjunct1, THEN mp, OF a]
  have 1: "\<exists>st. process_repo live_config example_parse example_world jwt app
               = Some (Inr st, example_gets @ [delete_call live_config jwt app t_v2,
                                               delete_call live_config jwt app t_v1,
                                               delete_call live_config jwt app t_v0])
         \<and> checked st = 5 \<and> deleted st = 2 \<and> errors st = 1 \<and> kept st = 2"
    by (simp add: example_eligible c l)
  have e0: "\<forall>x \<in> set (eligible live_config example_parse dropping_world app 0 [t_latest, t_v3]).
              answered dropping_world live_config app x"
    unfolding garbled_prefix(6) by simp
  from garbled_prefix(5) e0 garbled_prefix(7) example_answers(4)
  have e: "[t_latest, t_v3] @ t_v2 # [t_v1, t_v0] = [t_latest, t_v3] @ t_v2 # [t_v1, t_v0]
           \<and> all_evaluate live_config example_parse dropping_world app 0 [t_latest, t_v3]
           \<and> (\<forall>x \<in> set (eligible live_config example_parse dropping_world app 0
                            [t_latest, t_v3]). answered dropping_world live_config app x)
           \<and> decides_delete live_config example_parse dropping_world app
                (length [t_latest, t_v3]) t_v2
           \<and> delete_answer dropping_world live_config app t_v2 = Inl ConnectionError"
    by blast
  from th2 [THEN conjunct2, THEN conjunct1, THEN spec, THEN spec, THEN spec, THEN spec,
            THEN mp, OF e, unfolded garbled_prefix(6)]
  have 2: "process_repo live_config example_parse dropping_world jwt app
       = Some (Inl ConnectionError, example_gets @ [delete_call live_config jwt app t_v2])"
    by simp
  have g0: "\<forall>x \<in> set (eligible live_config example_parse garbled_world app 0
                          [t_latest, t_v3, t_v2]). answered garbled_world live_config app x"
    unfolding garbled_prefix(2) by (simp add: garbled_prefix(3))
  from garbled_prefix(1) g0 garbled_prefix(4)
  have g: "[t_latest, t_v3, t_v2] @ t_garbled # [t_v0] = [t_latest, t_v3, t_v2] @ t_garbled # [t_v0]
           \<and> all_evaluate live_config example_parse garbled_world app 0 [t_latest, t_v3, t_v2]
           \<and> (\<forall>x \<in> set (eligible live_config example_parse garbled_world app 0
                            [t_latest, t_v3, t_v2]). answered garbled_world live_config app x)
           \<and> evaluate_tag live_config example_parse
                (clock garbled_world app (length [t_latest, t_v3, t_v2]))
                t_garbled (int (length [t_latest, t_v3, t_v2])) = Inl ValueError"
    by blast
  from th3 [THEN conjunct2, THEN conjunct2, THEN spec, THEN spec, THEN spec, THEN spec,
            THEN mp, OF g, unfolded garbled_prefix(2)]
  have 3: "process_repo live_config example_parse garbled_world jwt app
       = Some (Inl ValueError, example_gets @ [delete_call live_config jwt app t_v2])"
    by simp
  from d example_listing(2) example_evaluates(2) 1 2 3 show ?thesis by blast
qed

text \<open>
  Claim C6 as stated fails: a failed deletion can raise. In live mode, with three eligible
  tags, the connection drops during the first DELETE; \<open>process_repo\<close> raises
  \<open>ConnectionError\<close> and the other two eligible tags are never requested.
\<close>

theorem raising_delete_request_aborts_repository:
  "\<not> DRY_RUN live_config
   \<and> eligible live_config example_parse dropping_world app 0 example_tags = [t_v2, t_v1, t_v0]
   \<and> delete_answer dropping_world live_config app t_v2 = Inl ConnectionError
   \<and> process_repo live_config example_parse dropping_world jwt app
       = Some (Inl ConnectionError,
               [GET (tags_url live_config app) jwt, GET page2_url jwt,
                DELETE (delete_url live_config app (Some ''v2'')) jwt])"
  by code_simp

lemma partitioned_add_stats:
  "partitioned a \<Longrightarrow> partitioned b \<Longrightarrow> partitioned (add_stats a b)"
  by (simp add: partitioned_def add_stats_def)

lemma process_repo_partitioned:
  assumes "process_repo cfg parse w token repo = Some (Inr st, calls)"
  shows "partitioned st"
  using assms
proof (cases rule: process_repo_cases)
  case (listing e)
  then show ?thesis by simp
next
  case (loop tags c)
  from process_tags_partition [OF loop(2)] show ?thesis by (simp add: partitioned_def)
qed

lemma process_repos_partitioned:
  "process_repos cfg parse w token repos totals calls = Some (Inr totals', calls') \<Longrightarrow>
   partitioned totals \<Longrightarrow> partitioned totals'"
proof (induction repos arbitrary: totals calls)
  case Nil
  then show ?case by simp
next
  case (Cons repo repos)
  from Cons.prems(1) obtain st c where
    p: "process_repo cfg parse w token repo = Some (Inr st, c)"
    and r: "process_repos cfg parse w token repos (add_stats totals st) (calls @ c)
              = Some (Inr totals', calls')"
    by (auto split: option.splits sum.splits prod.splits)
  from p have "partitioned st" by (rule process_repo_partitioned)
  with Cons.prems(2) have "partitioned (add_stats totals st)" by (simp add: partitioned_add_stats)
  with r show ?case by (rule Cons.IH)
qed

lemma run_cleanup_cases:
  assumes "run_cleanup cfg parse w = Some (res, calls)"
  obtains (login) e where "get_token w = (Inl e, calls)" and "res = Inl e"
  | (listing) token c e c2 where "get_token w = (Inr token, c)" and "REPOS_TO_CLEAN cfg = []"
      and "get_repositories w cfg token = Some (Inl e, c2)" and "res = Inl e" and "calls = c @ c2"
  | (loop) token c repos c2 where "get_token w = (Inr token, c)"
      and "(if REPOS_TO_CLEAN cfg \<noteq> [] then Some (Inr (map Some (REPOS_TO_CLEAN cfg)), [])
            else get_repositories w cfg token) = Some (Inr repos, c2)"
      and "process_repos cfg parse w token repos zero_stats (c @ c2) = Some (res, calls)"
  using assms
  by (auto simp: run_cleanup_def split: option.splits sum.splits prod.splits if_splits)

text \<open>
  Claim C9. Whenever \<open>process_repo\<close> returns its counters, \<open>checked\<close> equals
  \<open>deleted + kept + errors\<close>: every tag seen is counted in exactly one bucket. Summing two
  such records component by component keeps the equation, and so do the totals of
  \<open>run_cleanup\<close> whenever it returns.
\<close>

theorem stats_partition_the_tags_seen:
  "(\<forall>st calls. process_repo cfg parse w token repo = Some (Inr st, calls) \<longrightarrow> partitioned st)
   \<and> (\<forall>a b. partitioned a \<and> partitioned b \<longrightarrow> partitioned (add_stats a b))
   \<and> (\<forall>totals calls. run_cleanup cfg parse w = Some (Inr totals, calls) \<longrightarrow> partitioned totals)"
proof (intro conjI allI impI)
  fix st calls assume "process_repo cfg parse w token repo = Some (Inr st, calls)"
  then show "partitioned st" by (rule process_repo_partitioned)
next
  fix a b assume "partitioned a \<and> partitioned b"
  then show "partitioned (add_stats a b)" by (simp add: partitioned_add_stats)
next
  fix totals calls assume "run_cleanup cfg parse w = Some (Inr totals, calls)"
  then show "partitioned totals"
  proof (cases rule: run_cleanup_cases)
    case (loop token c repos c2)
    have "partitioned zero_stats" by (simp add: partitioned_def zero_stats_def)
    with loop(3) show ?thesis by (rule process_repos_partitioned)
  qed simp_all
qed

lemma example_runs:
  "process_repo live_config example_parse example_world jwt app
     = Some (Inr \<lparr>checked = 5, deleted = 2, kept = 2, errors = 1\<rparr>,
             example_gets @ [delete_call live_config jwt app t_v2,
                             delete_call live_config jwt app t_v1,
                             delete_call live_config jwt app t_v0])"
  "run_cleanup live_config example_parse example_world
     = Some (Inr \<lparr>checked = 5, deleted = 2, kept = 2, errors = 1\<rparr>,
             POST login_url # example_gets @ [delete_call live_config jwt app t_v2,
                             delete_call live_config jwt app t_v1,
                             delete_call live_config jwt app t_v0])"
  by code_simp+

text \<open>The live run over the example: 5 checked, 2 deleted, 2 kept, 1 error.\<close>

theorem stats_partition_the_tags_seen_witness:
  "process_repo live_config example_parse example_world jwt app
     = Some (Inr \<lparr>checked = 5, deleted = 2, kept = 2, errors = 1\<rparr>,
             example_gets @ [delete_call live_config jwt app t_v2,
                             delete_call live_config jwt app t_v1,
                             delete_call live_config jwt app t_v0])
   \<and> partitioned \<lparr>checked = 5, deleted = 2, kept = 2, errors = 1\<rparr>
   \<and> partitioned (add_stats \<lparr>checked = 5, deleted = 2, kept = 2, errors = 1\<rparr>
                              \<lparr>checked = 5, deleted = 2, kept = 2, errors = 1\<rparr>)
   \<and> (\<exists>calls. run_cleanup live_config example_parse example_world
                 = Some (Inr \<lparr>checked = 5, deleted = 2, kept = 2, errors = 1\<rparr>, calls))"
proof -
  note th = stats_partition_the_tags_seen [of live_config example_parse example_world jwt app]
  from th [THEN conjunct1, rule_format, OF example_runs(1)]
  have p: "partitioned \<lparr>checked = 5, deleted = 2, kept = 2, errors = 1\<rparr>" .
  from th [THEN conjunct2, THEN conjunct1, rule_format, OF conjI [OF p p]]
  have q: "partitioned (add_stats \<lparr>checked = 5, deleted = 2, kept = 2, errors = 1\<rparr>
                                  \<lparr>checked = 5, deleted = 2, kept = 2, errors = 1\<rparr>)" .
  from th [THEN conjunct2, THEN conjunct2, rule_format, OF example_runs(2)]
  have "partitioned \<lparr>checked = 5, deleted = 2, kept = 2, errors = 1\<rparr>" .
  with p q example_runs show ?thesis by blast
qed

section \<open>The cleanup run\<close>

lemma process_repos_stop:
  "process_repos cfg parse w token pre totals calls = Some (Inr t1, c1) \<Longrightarrow>
   process_repo cfg parse w token repo = Some (Inl e, c) \<Longrightarrow>
   process_repos cfg parse w token (pre @ repo # post) totals calls = Some (Inl e, c1 @ c)"
proof (induction pre arbitrary: totals calls)
  case Nil
  then show ?case by simp
next
  case (Cons r pre)
  from Cons.prems(1) obtain st cr where
    p: "process_repo cfg parse w token r = Some (Inr st, cr)"
    and q: "process_repos cfg parse w token pre (add_stats totals st) (calls @ cr)
              = Some (Inr t1, c1)"
    by (auto split: option.splits sum.splits prod.splits)
  from Cons.IH [OF q Cons.prems(2)] p show ?case by simp
qed

text \<open>
  Claim C3, as the code has it. After a successful login, a run whose target list is empty
  completes with all counters zero. Repositories are processed in list order, and an
  exception raised while one of them is processed is not caught by \<open>run_cleanup\<close>: when
  the repositories before it were processed and \<open>process_repo\<close> raises on it, the run
  raises that exception after the calls made so far, and no repository behind it is
  attempted.
\<close>

theorem run_cleanup_stops_at_first_failing_repository:
  assumes "get_token w = (Inr token, c0)"
  shows
  "(\<forall>c2. (if REPOS_TO_CLEAN cfg \<noteq> [] then Some (Inr (map Some (REPOS_TO_CLEAN cfg)), [])
           else get_repositories w cfg token) = Some (Inr [], c2) \<longrightarrow>
       run_cleanup cfg parse w = Some (Inr zero_stats, c0 @ c2))
   \<and> (\<forall>pre repo post c2 t1 c1 e c.
         (if REPOS_TO_CLEAN cfg \<noteq> [] then Some (Inr (map Some (REPOS_TO_CLEAN cfg)), [])
          else get_repositories w cfg token) = Some (Inr (pre @ repo # post), c2)
         \<and> process_repos cfg parse w token pre zero_stats (c0 @ c2) = Some (Inr t1, c1)
         \<and> process_repo cfg parse w token repo = Some (Inl e, c) \<longrightarrow>
         run_cleanup cfg parse w = Some (Inl e, c1 @ c))"
proof (intro conjI allI impI)
  fix c2
  assume "(if REPOS_TO_CLEAN cfg \<noteq> [] then Some (Inr (map Some (REPOS_TO_CLEAN cfg)), [])
           else get_repositories w cfg token) = Some (Inr [], c2)"
  with assms show "run_cleanup cfg parse w = Some (Inr zero_stats, c0 @ c2)"
    by (simp add: run_cleanup_def)
next
  fix pre repo post c2 t1 c1 e c
  assume h: "(if REPOS_TO_CLEAN cfg \<noteq> [] then Some (Inr (map Some (REPOS_TO_CLEAN cfg)), [])
          else get_repositories w cfg token) = Some (Inr (pre @ repo # post), c2)
         \<and> process_repos cfg parse w token pre zero_stats (c0 @ c2) = Some (Inr t1, c1)
         \<and> process_repo cfg parse w token repo = Some (Inl e, c)"
  then have r: "(if REPOS_TO_CLEAN cfg \<noteq> [] then Some (Inr (map Some (REPOS_TO_CLEAN cfg)), [])
          else get_repositories w cfg token) = Some (Inr (pre @ repo # post), c2)"
    and p: "process_repos cfg parse w token pre zero_stats (c0 @ c2) = Some (Inr t1, c1)"
    and f: "process_repo cfg parse w token repo = Some (Inl e, c)" by simp_all
  have "run_cleanup cfg parse w
          = process_repos cfg parse w token (pre @ repo # post) zero_stats (c0 @ c2)"
    using assms r by (simp add: run_cleanup_def)
  also have "\<dots> = Some (Inl e, c1 @ c)" using p f by (rule process_repos_stop)
  finally show "run_cleanup cfg parse w = Some (Inl e, c1 @ c)" .
qed

lemma example_logins:
  "get_token example_world = (Inr jwt, [POST login_url])"
  "get_token empty_world = (Inr jwt, [POST login_url])"
  by code_simp+

lemma example_targets:
  "(if REPOS_TO_CLEAN all_repos_config \<noteq> []
    then Some (Inr (map Some (REPOS_TO_CLEAN all_repos_config)), [])
    else get_repositories empty_world all_repos_config jwt)
     = Some (Inr [], [GET (repositories_url all_repos_config) jwt])"
  "(if REPOS_TO_CLEAN three_repo_config \<noteq> []
    then Some (Inr (map Some (REPOS_TO_CLEAN three_repo_config)), [])
    else get_repositories example_world three_repo_config jwt)
     = Some (Inr ([app] @ Some ''web'' # [app]), [])"
  by code_simp+

lemma example_repos:
  "process_repos three_repo_config example_parse example_world jwt [app] zero_stats
     ([POST login_url] @ [])
     = Some (Inr \<lparr>checked = 5, deleted = 2, kept = 2, errors = 1\<rparr>,
             POST login_url # example_gets @ [delete_call live_config jwt app t_v2,
                                              delete_call live_config jwt app t_v1,
                                              delete_call live_config jwt app t_v0])"
  "process_repo three_repo_config example_parse example_world jwt (Some ''web'')
     = Some (Inl (HTTPError 404), [GET (tags_url three_repo_config (Some ''web'')) jwt])"
  by code_simp+

text \<open>
  An empty namespace gives zero totals; and with the targets \<open>app\<close>, \<open>web\<close>, \<open>app\<close>, where
  the listing of \<open>web\<close> answers 404, the run cleans \<open>app\<close> once, raises on \<open>web\<close> and makes
  no further call.
\<close>

theorem run_cleanup_stops_at_first_failing_repository_witness:
  "get_token empty_world = (Inr jwt, [POST login_url])
   \<and> run_cleanup all_repos_config example_parse empty_world
       = Some (Inr zero_stats, [POST login_url, GET (repositories_url all_repos_config) jwt])
   \<and> get_token example_world = (Inr jwt, [POST login_url])
   \<and> REPOS_TO_CLEAN three_repo_config = [''app'', ''web'', ''app'']
   \<and> process_repo three_repo_config example_parse example_world jwt (Some ''web'')
       = Some (Inl (HTTPError 404), [GET (tags_url three_repo_config (Some ''web'')) jwt])
   \<and> run_cleanup three_repo_config example_parse example_world
       = Some (Inl (HTTPError 404),
               POST login_url # example_gets @ [delete_call live_config jwt app t_v2,
                                                delete_call live_config jwt app t_v1,
                                                delete_call live_config jwt app t_v0,
                                                GET (tags_url three_repo_config (Some ''web'')) jwt])"
proof -
  note th1 = run_cleanup_stops_at_first_failing_repository
               [OF example_logins(2), of all_repos_config example_parse]
  note th2 = run_cleanup_stops_at_first_failing_repository
               [OF example_logins(1), of three_repo_config example_parse]
  from th1 [THEN conjunct1, THEN spec, THEN mp, OF example_targets(1)]
  have 1: "run_cleanup all_repos_config example_parse empty_world
       = Some (Inr zero_stats, [POST login_url, GET (repositories_url all_repos_config) jwt])"
    by simp
  from th2 [THEN conjunct2, THEN spec, THEN spec, THEN spec, THEN spec, THEN spec, THEN spec,
            THEN spec, THEN spec, THEN mp,
            OF conjI [OF example_targets(2) conjI [OF example_repos(1) example_repos(2)]]]
  have 2: "run_cleanup three_repo_config example_parse example_world
       = Some (Inl (HTTPError 404),
               POST login_url # example_gets @ [delete_call live_config jwt app t_v2,
                                                delete_call live_config jwt app t_v1,
                                                delete_call live_config jwt app t_v0,
                                                GET (tags_url three_repo_config (Some ''web'')) jwt])"
    by simp
  have 3: "REPOS_TO_CLEAN three_repo_config = [''app'', ''web'', ''app'']"
    by (simp add: three_repo_config_def)
  from 1 2 3 example_logins example_repos(2) show ?thesis by blast
qed

text \<open>
  Claim C3 as stated fails: a failure on one repository does prevent the remaining ones
  from being attempted. With the targets \<open>web\<close> and \<open>app\<close> in live mode, the listing of
  \<open>web\<close> answers 404 and the run raises after that single GET, although processing \<open>app\<close>
  would have succeeded.
\<close>

theorem failing_repository_ends_the_run:
  "REPOS_TO_CLEAN two_repo_config = [''web'', ''app'']
   \<and> run_cleanup two_repo_config example_parse example_world
       = Some (Inl (HTTPError 404),
               [POST login_url, GET (tags_url two_repo_config (Some ''web'')) jwt])
   \<and> process_repo two_repo_config example_parse example_world jwt app
       = Some (Inr \<lparr>checked = 5, deleted = 2, kept = 2, errors = 1\<rparr>,
               [GET (tags_url two_repo_config app) jwt, GET page2_url jwt,
                DELETE (delete_url two_repo_config app (Some ''v2'')) jwt,
                DELETE (delete_url two_repo_config app (Some ''v1'')) jwt,
                DELETE (delete_url two_repo_config app (Some ''v0'')) jwt])"
  by code_simp

section \<open>The entry point\<close>

lemma safe_run_cleanup_returns:
  "run_cleanup cfg parse w = Some r \<Longrightarrow> safe_run_cleanup cfg parse w = Some (Inr (), r)"
  by (cases r) (auto simp: safe_run_cleanup_def split: sum.splits)

lemma scheduled_runs_all:
  "\<forall>w \<in> set ws. run_cleanup cfg parse w \<noteq> None \<Longrightarrow>
   \<exists>rs. scheduled_runs cfg parse ws = Some (Inr (), rs)
        \<and> map Some rs = map (run_cleanup cfg parse) ws"
proof (induction ws)
  case Nil
  show ?case by simp
next
  case (Cons w ws)
  from Cons.prems obtain r where r: "run_cleanup cfg parse w = Some r" by auto
  from Cons.prems Cons.IH obtain rs where
    rs: "scheduled_runs cfg parse ws = Some (Inr (), rs)"
    and m: "map Some rs = map (run_cleanup cfg parse) ws" by auto
  from safe_run_cleanup_returns [OF r] rs
  have "scheduled_runs cfg parse (w # ws) = Some (Inr (), r # rs)" by simp
  with r m show ?case by simp
qed

text \<open>
  Claim C7. With credentials set: in one-shot mode (empty \<open>CRON_SCHEDULE\<close>) an exception of
  the run leaves \<open>main\<close> and the exit status is not zero; an expression the cron parser
  rejects makes \<open>main\<close> exit with status 1 before any run; and in cron mode the immediate
  run and every scheduled run are made, whatever the runs before them raised, and \<open>main\<close>
  ends by returning, each run's exception being caught at the run.
\<close>

theorem entry_point_failure_policies:
  assumes "DOCKERHUB_USERNAME cfg \<noteq> []" and "DOCKERHUB_TOKEN cfg \<noteq> []"
  shows
  "(CRON_SCHEDULE cfg = [] \<longrightarrow>
      (\<forall>e c. run_cleanup cfg parse w0 = Some (Inl e, c) \<longrightarrow>
         main cfg parse from_crontab w0 ticks = Some (Uncaught e, [(Inl e, c)])
         \<and> exit_status (Uncaught e) \<noteq> 0))
   \<and> (CRON_SCHEDULE cfg \<noteq> [] \<and> \<not> from_crontab (CRON_SCHEDULE cfg) \<longrightarrow>
         main cfg parse from_crontab w0 ticks = Some (SysExit 1, [])
         \<and> exit_status (SysExit 1) \<noteq> 0)
   \<and> (CRON_SCHEDULE cfg \<noteq> [] \<and> from_crontab (CRON_SCHEDULE cfg)
       \<and> (\<forall>w \<in> set (w0 # ticks). run_cleanup cfg parse w \<noteq> None) \<longrightarrow>
         (\<exists>rs. main cfg parse from_crontab w0 ticks = Some (Returned, rs)
            \<and> map Some rs = map (run_cleanup cfg parse) (w0 # ticks)))"
proof (intro conjI allI impI)
  fix e c
  assume "CRON_SCHEDULE cfg = []" and "run_cleanup cfg parse w0 = Some (Inl e, c)"
  with assms show "main cfg parse from_crontab w0 ticks = Some (Uncaught e, [(Inl e, c)])"
    by (simp add: main_def)
next
  fix e :: error
  show "exit_status (Uncaught e) \<noteq> 0" by simp
next
  assume "CRON_SCHEDULE cfg \<noteq> [] \<and> \<not> from_crontab (CRON_SCHEDULE cfg)"
  with assms show "main cfg parse from_crontab w0 ticks = Some (SysExit 1, [])"
    by (simp add: main_def)
next
  show "exit_status (SysExit 1) \<noteq> 0" by simp
next
  assume h: "CRON_SCHEDULE cfg \<noteq> [] \<and> from_crontab (CRON_SCHEDULE cfg)
       \<and> (\<forall>w \<in> set (w0 # ticks). run_cleanup cfg parse w \<noteq> None)"
  then have "\<forall>w \<in> set (w0 # ticks). run_cleanup cfg parse w \<noteq> None" by simp
  from scheduled_runs_all [OF this] obtain rs where
    rs: "scheduled_runs cfg parse (w0 # ticks) = Some (Inr (), rs)"
    and m: "map Some rs = map (run_cleanup cfg parse) (w0 # ticks)" by blast
  from assms h rs have "main cfg parse from_crontab w0 ticks = Some (Returned, rs)"
    by (simp add: main_def)
  with m show "\<exists>rs. main cfg parse from_crontab w0 ticks = Some (Returned, rs)
            \<and> map Some rs = map (run_cleanup cfg parse) (w0 # ticks)" by blast
qed

lemma example_cron_runs:
  "run_cleanup example_config example_parse broken_listing_world
     = Some (Inl (HTTPError 500), POST login_url # example_gets)"
  "run_cleanup cron_config example_parse broken_listing_world
     = Some (Inl (HTTPError 500), POST login_url # example_gets)"
  "run_cleanup cron_config example_parse example_world
     = Some (Inr \<lparr>checked = 5, deleted = 3, kept = 2, errors = 0\<rparr>, POST login_url # example_gets)"
  "run_cleanup cron_config example_parse flaky_login_world
     = Some (Inl (HTTPError 503), [POST login_url])"
  by code_simp+

text \<open>
  One-shot against a listing that answers 500; a schedule that does not parse; and cron
  mode where the immediate run fails, the first tick succeeds and the second fails at
  login.
\<close>

theorem entry_point_failure_policies_witness:
  "main example_config example_parse example_from_crontab broken_listing_world []
     = Some (Uncaught (HTTPError 500), [(Inl (HTTPError 500), POST login_url # example_gets)])
   \<and> exit_status (Uncaught (HTTPError 500)) \<noteq> 0
   \<and> main bad_cron_config example_parse example_from_crontab example_world []
       = Some (SysExit 1, [])
   \<and> main cron_config example_parse example_from_crontab broken_listing_world
         [example_world, flaky_login_world]
       = Some (Returned,
               [(Inl (HTTPError 500), POST login_url # example_gets),
                (Inr \<lparr>checked = 5, deleted = 3, kept = 2, errors = 0\<rparr>,
                 POST login_url # example_gets),
                (Inl (HTTPError 503), [POST login_url])])"
proof -
  have u: "DOCKERHUB_USERNAME example_config \<noteq> []" "DOCKERHUB_TOKEN example_config \<noteq> []"
    "DOCKERHUB_USERNAME bad_cron_config \<noteq> []" "DOCKERHUB_TOKEN bad_cron_config \<noteq> []"
    "DOCKERHUB_USERNAME cron_config \<noteq> []" "DOCKERHUB_TOKEN cron_config \<noteq> []"
    by (simp_all add: example_config_def bad_cron_config_def cron_config_def)
  have one_shot: "CRON_SCHEDULE example_config = []" by (simp add: example_config_def)
  have bad: "CRON_SCHEDULE bad_cron_config \<noteq> []
             \<and> \<not> example_from_crontab (CRON_SCHEDULE bad_cron_config)"
    by (simp add: bad_cron_config_def example_from_crontab_def)
  have g1: "CRON_SCHEDULE cron_config \<noteq> [] \<and> example_from_crontab (CRON_SCHEDULE cron_config)"
    by (simp add: cron_config_def example_from_crontab_def)
  have g2: "\<forall>w \<in> set (broken_listing_world # [example_world, flaky_login_world]).
             run_cleanup cron_config example_parse w \<noteq> None"
    by (simp add: example_cron_runs)
  from g1 g2
  have good: "CRON_SCHEDULE cron_config \<noteq> [] \<and> example_from_crontab (CRON_SCHEDULE cron_config)
       \<and> (\<forall>w \<in> set (broken_listing_world # [example_world, flaky_login_world]).
             run_cleanup cron_config example_parse w \<noteq> None)"
    by blast
  from entry_point_failure_policies
         [OF u(1) u(2), of example_parse broken_listing_world example_from_crontab "[]",
          THEN conjunct1, THEN mp, OF one_shot, THEN spec, THEN spec, THEN mp,
          OF example_cron_runs(1)]
  have 1: "main example_config example_parse example_from_crontab broken_listing_world []
     = Some (Uncaught (HTTPError 500), [(Inl (HTTPError 500), POST login_url # example_gets)])
   \<and> exit_status (Uncaught (HTTPError 500)) \<noteq> 0" .
  from entry_point_failure_policies
         [OF u(3) u(4), of example_parse example_world example_from_crontab "[]",
          THEN conjunct2, THEN conjunct1, THEN mp, OF bad]
  have 2: "main bad_cron_config example_parse example_from_crontab example_world []
       = Some (SysExit 1, [])" by simp
  from entry_point_failure_policies
         [OF u(5) u(6), of example_parse broken_listing_world example_from_crontab
            "[example_world, flaky_login_world]",
          THEN conjunct2, THEN conjunct2, THEN mp, OF good]
  have 3: "main cron_config example_parse example_from_crontab broken_listing_world
         [example_world, flaky_login_world]
       = Some (Returned,
               [(Inl (HTTPError 500), POST login_url # example_gets),
                (Inr \<lparr>checked = 5, deleted = 3, kept = 2, errors = 0\<rparr>,
                 POST login_url # example_gets),
                (Inl (HTTPError 503), [POST login_url])])"
    by (auto simp: example_cron_runs)
  from 1 2 3 show ?thesis by blast
qed

end
